theory Spec2Isabelle
  imports Complex_Main "HOL-Library.Log_Nat"
begin

section \<open>JavaScript numbers: IEEE-754 binary64\<close>

text \<open>
  Every \<^verbatim>\<open>number\<close> of the TypeScript source is an IEEE-754 double. A finite double is
  modelled by its exact rational value, with the negative zero, the two infinities and
  NaN as separate values. Each arithmetic operation computes the exact rational result
  and rounds it to the nearest double, ties to even, as the hardware does.
\<close>

datatype double = Fin rat | NegZero | PInf | NInf | NaN

definition pow2 :: "int \<Rightarrow> rat" where
  "pow2 e = (if 0 \<le> e then 2 ^ nat e else 1 / 2 ^ nat (- e))"

text \<open>The binary exponent of a positive rational: the largest \<open>l\<close> with \<open>2^l \<le> a\<close>.\<close>

definition ilog2 :: "rat \<Rightarrow> int" where
  "ilog2 a = (if 1 \<le> a then bitlen \<lfloor>a\<rfloor> - 1 else - bitlen (\<lceil>1 / a\<rceil> - 1))"

text \<open>Rounding to the nearest integer, a tie going to the even neighbour.\<close>

definition round_he :: "rat \<Rightarrow> int" where
  "round_he x = (let f = \<lfloor>x\<rfloor>; r = x - of_int f in
     if r < 1 / 2 then f else if 1 / 2 < r then f + 1 else if even f then f else f + 1)"

text \<open>
  Rounding an exact result to binary64: 53 significant bits, the least exponent
  \<open>-1074\<close> (subnormals), overflow to an infinity from \<open>2^1024\<close> on, and a result that
  underflows to zero keeps the sign of the exact value.
\<close>

definition rnd :: "rat \<Rightarrow> double" where
  "rnd q = (if q = 0 then Fin 0 else
     let a = \<bar>q\<bar>;
         e = max (ilog2 a - 52) (- 1074);
         m = round_he (a / pow2 e);
         v = of_int m * pow2 e
     in if pow2 1024 \<le> v then (if q < 0 then NInf else PInf)
        else if m = 0 then (if q < 0 then NegZero else Fin 0)
        else Fin (if q < 0 then - v else v))"

text \<open>
  The same rounding, written as nested applications: the form in which the simplifier
  evaluates it on numerals, one argument at a time.
\<close>

definition rnd_fin :: "rat \<Rightarrow> int \<Rightarrow> rat \<Rightarrow> double" where
  "rnd_fin q m v =
     (if pow2 1024 \<le> v then (if q < 0 then NInf else PInf)
      else if m = 0 then (if q < 0 then NegZero else Fin 0)
      else Fin (if q < 0 then - v else v))"

definition rnd_pack :: "rat \<Rightarrow> int \<Rightarrow> rat \<Rightarrow> double" where
  "rnd_pack q m p = rnd_fin q m (of_int m * p)"

definition round_he_at :: "rat \<Rightarrow> int \<Rightarrow> int" where
  "round_he_at x f =
     (if x - of_int f < 1 / 2 then f
      else if 1 / 2 < x - of_int f then f + 1
      else if even f then f else f + 1)"

definition rnd_at :: "rat \<Rightarrow> rat \<Rightarrow> rat \<Rightarrow> double" where
  "rnd_at q x p = rnd_pack q (round_he_at x \<lfloor>x\<rfloor>) p"

definition rnd_exp :: "rat \<Rightarrow> rat \<Rightarrow> double" where
  "rnd_exp q p = rnd_at q (\<bar>q\<bar> / p) p"

fun fval :: "double \<Rightarrow> rat" where
  "fval (Fin q) = q"
| "fval _ = 0"

fun frank :: "double \<Rightarrow> int" where
  "frank NInf = - 1"
| "frank PInf = 1"
| "frank _ = 0"

fun is_zero :: "double \<Rightarrow> bool" where
  "is_zero (Fin q) = (q = 0)"
| "is_zero NegZero = True"
| "is_zero _ = False"

fun is_inf :: "double \<Rightarrow> bool" where
  "is_inf PInf = True"
| "is_inf NInf = True"
| "is_inf _ = False"

fun sign_neg :: "double \<Rightarrow> bool" where
  "sign_neg (Fin q) = (q < 0)"
| "sign_neg NegZero = True"
| "sign_neg NInf = True"
| "sign_neg _ = False"

definition signed_zero :: "bool \<Rightarrow> double" where
  "signed_zero neg = (if neg then NegZero else Fin 0)"

definition signed_inf :: "bool \<Rightarrow> double" where
  "signed_inf neg = (if neg then NInf else PInf)"

text \<open>Comparisons: every comparison with NaN is false, and the two zeros are equal.\<close>

definition flt :: "double \<Rightarrow> double \<Rightarrow> bool" where
  "flt a b = (a \<noteq> NaN \<and> b \<noteq> NaN \<and>
     (frank a < frank b \<or> (frank a = frank b \<and> fval a < fval b)))"

definition fle :: "double \<Rightarrow> double \<Rightarrow> bool" where
  "fle a b = (a \<noteq> NaN \<and> b \<noteq> NaN \<and>
     (frank a < frank b \<or> (frank a = frank b \<and> fval a \<le> fval b)))"

definition fgt :: "double \<Rightarrow> double \<Rightarrow> bool" where
  "fgt a b = flt b a"

definition fge :: "double \<Rightarrow> double \<Rightarrow> bool" where
  "fge a b = fle b a"

fun fneg :: "double \<Rightarrow> double" where
  "fneg (Fin q) = (if q = 0 then NegZero else Fin (- q))"
| "fneg NegZero = Fin 0"
| "fneg PInf = NInf"
| "fneg NInf = PInf"
| "fneg NaN = NaN"

text \<open>\<^verbatim>\<open>Math.abs\<close>.\<close>

fun fabs :: "double \<Rightarrow> double" where
  "fabs (Fin q) = Fin \<bar>q\<bar>"
| "fabs NegZero = Fin 0"
| "fabs PInf = PInf"
| "fabs NInf = PInf"
| "fabs NaN = NaN"

definition fadd :: "double \<Rightarrow> double \<Rightarrow> double" where
  "fadd a b =
     (if a = NaN \<or> b = NaN then NaN
      else if is_inf a \<or> is_inf b then
        (if is_inf a \<and> is_inf b \<and> a \<noteq> b then NaN else if is_inf a then a else b)
      else if a = NegZero \<and> b = NegZero then NegZero
      else rnd (fval a + fval b))"

definition fsub :: "double \<Rightarrow> double \<Rightarrow> double" where
  "fsub a b = fadd a (fneg b)"

definition fmul :: "double \<Rightarrow> double \<Rightarrow> double" where
  "fmul a b =
     (if a = NaN \<or> b = NaN then NaN
      else if (is_inf a \<and> is_zero b) \<or> (is_zero a \<and> is_inf b) then NaN
      else if is_inf a \<or> is_inf b then signed_inf (sign_neg a \<noteq> sign_neg b)
      else if is_zero a \<or> is_zero b then signed_zero (sign_neg a \<noteq> sign_neg b)
      else rnd (fval a * fval b))"

definition fdiv :: "double \<Rightarrow> double \<Rightarrow> double" where
  "fdiv a b =
     (if a = NaN \<or> b = NaN then NaN
      else if (is_inf a \<and> is_inf b) \<or> (is_zero a \<and> is_zero b) then NaN
      else if is_inf a \<or> is_zero b then signed_inf (sign_neg a \<noteq> sign_neg b)
      else if is_inf b \<or> is_zero a then signed_zero (sign_neg a \<noteq> sign_neg b)
      else rnd (fval a / fval b))"

text \<open>
  \<^verbatim>\<open>Math.max(...xs)\<close> and \<^verbatim>\<open>Math.min(...xs)\<close>: NaN as soon as one argument is NaN,
  \<open>+0\<close> above \<open>-0\<close>, and \<open>-Infinity\<close> (\<open>+Infinity\<close>) for no argument.
\<close>

definition js_max2 :: "double \<Rightarrow> double \<Rightarrow> double" where
  "js_max2 a b =
     (if a = NaN \<or> b = NaN then NaN
      else if flt a b then b else if flt b a then a
      else if a = NegZero then b else a)"

definition js_min2 :: "double \<Rightarrow> double \<Rightarrow> double" where
  "js_min2 a b =
     (if a = NaN \<or> b = NaN then NaN
      else if flt a b then a else if flt b a then b
      else if a = NegZero then a else b)"

definition Math_max :: "double list \<Rightarrow> double" where
  "Math_max xs = foldl js_max2 NInf xs"

definition Math_min :: "double list \<Rightarrow> double" where
  "Math_min xs = foldl js_min2 PInf xs"

text \<open>
  Reading a number array out of range gives \<^verbatim>\<open>undefined\<close>, which arithmetic converts
  to NaN.
\<close>

definition js_get :: "double list \<Rightarrow> nat \<Rightarrow> double" where
  "js_get xs i = (if i < length xs then xs ! i else NaN)"

text \<open>An array index or length in a template string: its decimal digits.\<close>

fun show_nat :: "nat \<Rightarrow> string" where
  "show_nat n =
     (if n < 10 then [''0123456789'' ! n]
      else show_nat (n div 10) @ [''0123456789'' ! (n mod 10)])"

declare show_nat.simps [simp del]

text \<open>
  \<^verbatim>\<open>Array.prototype.sort\<close> with a comparator is a stable sort: \<open>b\<close> moves before \<open>a\<close>
  only when the comparator's result for \<open>(a, b)\<close> is positive; a zero or NaN result
  keeps the two in their order.
\<close>

fun js_insert :: "('a \<Rightarrow> 'a \<Rightarrow> double) \<Rightarrow> 'a \<Rightarrow> 'a list \<Rightarrow> 'a list" where
  "js_insert cmp x [] = [x]"
| "js_insert cmp x (y # ys) =
     (if fgt (cmp x y) (Fin 0) then y # js_insert cmp x ys else x # y # ys)"

definition js_sort :: "('a \<Rightarrow> 'a \<Rightarrow> double) \<Rightarrow> 'a list \<Rightarrow> 'a list" where
  "js_sort cmp xs = foldr (js_insert cmp) xs []"

section \<open>The data model (\<^verbatim>\<open>src/lib/types.ts\<close>)\<close>

text \<open>
  The field \<^verbatim>\<open>open\<close> of a point is written \<open>open'\<close>, and the fields of a marker and of a
  move carry a prefix where a record of this theory has a field of the same name.
\<close>

record IntradayPoint =
  timestamp :: double
  open' :: double
  high :: double
  low :: double
  close :: double
  volume :: double

datatype InsightConfidence = High | Medium | Low

datatype Direction = Bullish | Bearish

record PatternInsight =
  insight_id :: string
  title :: string
  description :: string
  confidence :: InsightConfidence
  startIndex :: "nat option"
  endIndex :: "nat option"
  changePct :: "double option"
  direction :: "Direction option"

record SignalMarker =
  signal_timestamp :: double
  price :: double
  label :: string
  signal_confidence :: InsightConfidence
  signal_direction :: Direction

record Stats =
  rangePct :: double
  avgVolume :: double
  sessionChangePct :: double
  sessionHigh :: double
  sessionLow :: double

record AnalysisSummary =
  narrative :: string
  stats :: Stats
  insights :: "PatternInsight list"
  signals :: "SignalMarker list"
  ema9 :: "double list"
  ema21 :: "double list"

section \<open>The analysis engine (\<^verbatim>\<open>patternDetection\<close>)\<close>

text \<open>
  The two formatting functions come from outside the repository and are parameters of
  the model: \<open>format\<close> is \<^verbatim>\<open>format(ms, "HH:mm")\<close> of date-fns, applied to the timestamp
  in milliseconds, and \<open>toFixed2\<close> is \<^verbatim>\<open>Number.prototype.toFixed(2)\<close>. Both are taken to
  return a string for every argument; the source has no error path of its own.
\<close>

definition BIG_MOVE_LOOKBACK :: nat where
  "BIG_MOVE_LOOKBACK = 3"

definition BIG_MOVE_THRESHOLD :: double where
  "BIG_MOVE_THRESHOLD = rnd (6 / 10)"

subsection \<open>calculateEMA\<close>

fun emaLoop :: "double \<Rightarrow> double \<Rightarrow> double list \<Rightarrow> double list" where
  "emaLoop k prev [] = []"
| "emaLoop k prev (c # cs) =
     (let e = fadd (fmul c k) (fmul prev (fsub (Fin 1) k)) in e # emaLoop k e cs)"

definition calculateEMA :: "IntradayPoint list \<Rightarrow> double \<Rightarrow> double list" where
  "calculateEMA points len =
     (case points of
        [] \<Rightarrow> []
      | p # ps \<Rightarrow>
          (let k = fdiv (Fin 2) (fadd len (Fin 1))
           in close p # emaLoop k (close p) (map close ps)))"

subsection \<open>toConfidence\<close>

definition toConfidence :: "double \<Rightarrow> InsightConfidence" where
  "toConfidence change =
     (let absChange = fabs change in
      if fge absChange (Fin (3 / 2)) then High
      else if fge absChange (Fin 1) then Medium
      else Low)"

subsection \<open>detectBigMoves\<close>

record Move =
  move_index :: nat
  move_changePct :: double
  move_direction :: Direction
  move_spanStart :: nat

text \<open>The percentage change \<^verbatim>\<open>((latest - base) / base) * 100\<close>.\<close>

definition pctChange :: "double \<Rightarrow> double \<Rightarrow> double" where
  "pctChange baseClose latestClose =
     fmul (fdiv (fsub latestClose baseClose) baseClose) (Fin 100)"

definition bigMoveStep :: "IntradayPoint list \<Rightarrow> Move list \<Rightarrow> nat \<Rightarrow> Move list" where
  "bigMoveStep points moves i =
     (let baseClose = close (points ! (i - BIG_MOVE_LOOKBACK));
          latestClose = close (points ! i);
          changePct = pctChange baseClose latestClose
      in if fge (fabs changePct) BIG_MOVE_THRESHOLD
         then moves @ [\<lparr> move_index = i, move_changePct = changePct,
                         move_direction = (if fge changePct (Fin 0) then Bullish else Bearish),
                         move_spanStart = i - BIG_MOVE_LOOKBACK \<rparr>]
         else moves)"

definition bigMoveScan :: "IntradayPoint list \<Rightarrow> Move list" where
  "bigMoveScan points = foldl (bigMoveStep points) [] [BIG_MOVE_LOOKBACK..<length points]"

definition compareMoves :: "Move \<Rightarrow> Move \<Rightarrow> double" where
  "compareMoves a b = fsub (fabs (move_changePct b)) (fabs (move_changePct a))"

definition topMoves :: "IntradayPoint list \<Rightarrow> Move list" where
  "topMoves points = take 4 (js_sort compareMoves (bigMoveScan points))"

definition directionLabel :: "Direction \<Rightarrow> string" where
  "directionLabel d = (if d = Bullish then ''Bullish'' else ''Bearish'')"

definition bigMoveInsight ::
  "(double \<Rightarrow> string) \<Rightarrow> (double \<Rightarrow> string) \<Rightarrow> IntradayPoint list \<Rightarrow> nat \<times> Move \<Rightarrow> PatternInsight"
where
  "bigMoveInsight format toFixed2 points im =
     (let idx = fst im; move = snd im;
          point = points ! move_index move;
          startPoint = points ! move_spanStart move
      in \<lparr> insight_id = ''big-move-'' @ show_nat (move_index move),
           title = directionLabel (move_direction move) @ '' impulse #'' @ show_nat (idx + 1),
           description =
             directionLabel (move_direction move) @ '' burst of '' @
             toFixed2 (move_changePct move) @ ''% between '' @
             format (fmul (timestamp startPoint) (Fin 1000)) @ '' and '' @
             format (fmul (timestamp point) (Fin 1000)) @ '' indicates aggressive '' @
             (if move_direction move = Bullish then ''buying'' else ''selling'') @
             '' pressure.'',
           confidence = toConfidence (move_changePct move),
           startIndex = Some (move_spanStart move),
           endIndex = Some (move_index move),
           changePct = Some (move_changePct move),
           direction = Some (move_direction move) \<rparr>)"

definition bigMoveSignal :: "IntradayPoint list \<Rightarrow> Move \<Rightarrow> SignalMarker" where
  "bigMoveSignal points move =
     \<lparr> signal_timestamp = timestamp (points ! move_index move),
       price = close (points ! move_index move),
       label = (if move_direction move = Bullish then ''Momentum Upswing'' else ''Momentum Flush''),
       signal_confidence = toConfidence (move_changePct move),
       signal_direction = move_direction move \<rparr>"

definition detectBigMoves ::
  "(double \<Rightarrow> string) \<Rightarrow> (double \<Rightarrow> string) \<Rightarrow> IntradayPoint list
     \<Rightarrow> PatternInsight list \<times> SignalMarker list"
where
  "detectBigMoves format toFixed2 points =
     (let top = topMoves points
      in (map (bigMoveInsight format toFixed2 points) (enumerate 0 top),
          map (bigMoveSignal points) top))"

subsection \<open>detectTrendShifts\<close>

definition trendStep ::
  "(double \<Rightarrow> string) \<Rightarrow> IntradayPoint list \<Rightarrow> double list \<Rightarrow> double list
     \<Rightarrow> PatternInsight list \<Rightarrow> nat \<Rightarrow> PatternInsight list"
where
  "trendStep format points e9 e21 acc i =
     (let prevDiff = fsub (js_get e9 (i - 1)) (js_get e21 (i - 1));
          currDiff = fsub (js_get e9 i) (js_get e21 i)
      in if fle prevDiff (Fin 0) \<and> fgt currDiff (Fin 0) then
           acc @ [\<lparr> insight_id = ''bullish-cross-'' @ show_nat i,
                    title = ''Short-term bullish transition'',
                    description =
                      ''Fast EMA crossed above the intermediate trend near '' @
                      format (fmul (timestamp (points ! i)) (Fin 1000)) @
                      '', suggesting renewed upside momentum.'',
                    confidence = Medium,
                    startIndex = Some (i - 1),
                    endIndex = Some i,
                    changePct = None,
                    direction = Some Bullish \<rparr>]
         else if fge prevDiff (Fin 0) \<and> flt currDiff (Fin 0) then
           acc @ [\<lparr> insight_id = ''bearish-cross-'' @ show_nat i,
                    title = ''Short-term bearish transition'',
                    description =
                      ''Fast EMA slipped beneath the intermediate trend near '' @
                      format (fmul (timestamp (points ! i)) (Fin 1000)) @
                      '', flagging a potential fade.'',
                    confidence = Medium,
                    startIndex = Some (i - 1),
                    endIndex = Some i,
                    changePct = None,
                    direction = Some Bearish \<rparr>]
         else acc)"

definition trendScan ::
  "(double \<Rightarrow> string) \<Rightarrow> IntradayPoint list \<Rightarrow> double list \<Rightarrow> double list
     \<Rightarrow> PatternInsight list"
where
  "trendScan format points e9 e21 =
     foldl (trendStep format points e9 e21) [] [1..<length points]"

definition detectTrendShifts ::
  "(double \<Rightarrow> string) \<Rightarrow> IntradayPoint list \<Rightarrow> double list \<Rightarrow> double list
     \<Rightarrow> PatternInsight list"
where
  "detectTrendShifts format points e9 e21 =
     (let found = trendScan format points e9 e21
      in drop (length found - 3) found)"

subsection \<open>detectCompressionBreakout\<close>

text \<open>The range of the ten samples before \<open>i\<close>, relative to the close at \<open>i\<close>.\<close>

definition windowRange :: "IntradayPoint list \<Rightarrow> nat \<Rightarrow> double" where
  "windowRange points i =
     (let windowPoints = take 10 (drop (i - 10) points);
          highs = map high windowPoints;
          lows = map low windowPoints
      in fdiv (fsub (Math_max highs) (Math_min lows)) (close (points ! i)))"

definition compressionStep :: "IntradayPoint list \<Rightarrow> double \<times> nat \<Rightarrow> nat \<Rightarrow> double \<times> nat" where
  "compressionStep points st i =
     (let range = windowRange points i
      in if flt range (fst st) then (range, i) else st)"

definition compressionScan :: "IntradayPoint list \<Rightarrow> double \<times> nat" where
  "compressionScan points = foldl (compressionStep points) (PInf, 0) [10..<length points]"

definition detectCompressionBreakout ::
  "(double \<Rightarrow> string) \<Rightarrow> IntradayPoint list \<Rightarrow> PatternInsight list"
where
  "detectCompressionBreakout toFixed2 points =
     (if length points < 20 then []
      else
        let minRange = fst (compressionScan points);
            minIndex = snd (compressionScan points);
            breakoutIndex = min (length points - 1) (minIndex + 3);
            changePct = pctChange (close (points ! minIndex)) (close (points ! breakoutIndex))
        in if flt (fabs changePct) (rnd (8 / 10)) then []
           else [\<lparr> insight_id = ''compression-'' @ show_nat breakoutIndex,
                    title = ''Tight-range expansion'',
                    description =
                      ''Price coiled within a tight '' @ toFixed2 (fmul minRange (Fin 100)) @
                      ''% band before releasing '' @ toFixed2 changePct @
                      ''%, often a precursor to sustained follow-through.'',
                    confidence = toConfidence changePct,
                    startIndex = Some minIndex,
                    endIndex = Some breakoutIndex,
                    changePct = Some changePct,
                    direction = Some (if fge changePct (Fin 0) then Bullish else Bearish) \<rparr>])"

subsection \<open>buildNarrative\<close>

datatype Bias = BiasBullish | BiasBearish | BiasBalanced

definition narrativeBias :: "IntradayPoint list \<Rightarrow> Bias" where
  "narrativeBias points =
     (let first = close (points ! 0);
          last = close (points ! (length points - 1));
          changePct = pctChange first last
      in if fgt changePct (rnd (6 / 10)) then BiasBullish
         else if flt changePct (fneg (rnd (6 / 10))) then BiasBearish
         else BiasBalanced)"

definition biasText :: "Bias \<Rightarrow> string" where
  "biasText bias =
     (if bias = BiasBullish then
        ''Flow shows a constructive bias with buyers pressing the tape.''
      else if bias = BiasBearish then
        ''Supply dominated the session with persistent offer absorption.''
      else ''Auction remained rotational with neither side in clear control.'')"

definition buildNarrative :: "(double \<Rightarrow> string) \<Rightarrow> IntradayPoint list \<Rightarrow> string" where
  "buildNarrative toFixed2 points =
     (if length points < 2 then ''Insufficient data to build a narrative.''
      else
        let first = close (points ! 0);
            last = close (points ! (length points - 1));
            changePct = pctChange first last;
            sessionHigh = Math_max (map high points);
            sessionLow = Math_min (map low points);
            rangePct = fmul (fdiv (fsub sessionHigh sessionLow) sessionLow) (Fin 100)
        in biasText (narrativeBias points) @ '' Spot rallied '' @ toFixed2 changePct @
           ''% across the session while rotating through a '' @ toFixed2 rangePct @
           ''% range. Monitor how price behaves near '' @ toFixed2 sessionHigh @
           '' (swing high) and '' @ toFixed2 sessionLow @
           '' (swing low) for confirmation of continuation or rejection.'')"

subsection \<open>analyzeIntradayData\<close>

definition sessionStats :: "IntradayPoint list \<Rightarrow> Stats" where
  "sessionStats points =
     (let volumeSum = foldl (\<lambda>sum point. fadd sum (volume point)) (Fin 0) points;
          sessionHigh = Math_max (map high points);
          sessionLow = Math_min (map low points);
          avgVolume = fdiv volumeSum (rnd (of_nat (length points)));
          sessionChangePct =
            pctChange (close (points ! 0)) (close (points ! (length points - 1)));
          rangePct = fmul (fdiv (fsub sessionHigh sessionLow) sessionLow) (Fin 100)
      in \<lparr> rangePct = rangePct, avgVolume = avgVolume,
           sessionChangePct = sessionChangePct,
           sessionHigh = sessionHigh, sessionLow = sessionLow \<rparr>)"

definition analyzeIntradayData ::
  "(double \<Rightarrow> string) \<Rightarrow> (double \<Rightarrow> string) \<Rightarrow> IntradayPoint list \<Rightarrow> AnalysisSummary"
where
  "analyzeIntradayData format toFixed2 points =
     (if length points = 0 then
        \<lparr> narrative = ''No intraday prints were returned from the data source.'',
          stats = \<lparr> rangePct = Fin 0, avgVolume = Fin 0, sessionChangePct = Fin 0,
                    sessionHigh = Fin 0, sessionLow = Fin 0 \<rparr>,
          insights = [],
          signals = [],
          ema9 = [],
          ema21 = [] \<rparr>
      else
        let e9 = calculateEMA points (Fin 9);
            e21 = calculateEMA points (Fin 21);
            bigMoves = detectBigMoves format toFixed2 points;
            trendInsights = detectTrendShifts format points e9 e21;
            compressionInsights = detectCompressionBreakout toFixed2 points
        in \<lparr> narrative = buildNarrative toFixed2 points,
             stats = sessionStats points,
             insights = take 6 (fst bigMoves @ trendInsights @ compressionInsights),
             signals = snd bigMoves,
             ema9 = e9,
             ema21 = e21 \<rparr>)"

section \<open>Notions used in the statements\<close>

text \<open>
  The finite doubles are multiples of \<open>2^-1074\<close>; a magnitude is a non-negative such
  value or \<open>+Infinity\<close>.
\<close>

definition on_grid :: "rat \<Rightarrow> bool" where
  "on_grid q = (\<exists>j::int. q = of_int j * pow2 (- 1074))"

fun magnitude_ok :: "double \<Rightarrow> bool" where
  "magnitude_ok (Fin q) = (0 \<le> q \<and> on_grid q)"
| "magnitude_ok PInf = True"
| "magnitude_ok _ = False"

text \<open>The percentage change that \<open>detectBigMoves\<close> computes at index \<open>i\<close>.\<close>

definition pctAt :: "IntradayPoint list \<Rightarrow> nat \<Rightarrow> double" where
  "pctAt points i =
     pctChange (close (points ! (i - BIG_MOVE_LOOKBACK))) (close (points ! i))"

text \<open>A move as the scan records it, at an index below \<open>m\<close>.\<close>

definition candidateMove :: "IntradayPoint list \<Rightarrow> nat \<Rightarrow> Move \<Rightarrow> bool" where
  "candidateMove points m mv =
     (BIG_MOVE_LOOKBACK \<le> move_index mv \<and> move_index mv < m \<and>
      move_spanStart mv = move_index mv - BIG_MOVE_LOOKBACK \<and>
      move_changePct mv = pctAt points (move_index mv) \<and>
      fge (fabs (pctAt points (move_index mv))) BIG_MOVE_THRESHOLD \<and>
      move_direction mv =
        (if fge (pctAt points (move_index mv)) (Fin 0) then Bullish else Bearish))"

definition moveMagnitude :: "Move \<Rightarrow> double" where
  "moveMagnitude m = fabs (move_changePct m)"

text \<open>The ranking: larger magnitude first, and the earlier index first on a tie.\<close>

definition moveOrder :: "Move \<Rightarrow> Move \<Rightarrow> bool" where
  "moveOrder a b =
     (flt (moveMagnitude b) (moveMagnitude a) \<or>
      (moveMagnitude a = moveMagnitude b \<and> move_index a < move_index b))"

text \<open>The magnitude \<open>|changePct|\<close> and the end index of an insight.\<close>

definition insightMagnitude :: "PatternInsight \<Rightarrow> double" where
  "insightMagnitude x = (case changePct x of Some c \<Rightarrow> fabs c | None \<Rightarrow> NaN)"

definition insightEnd :: "PatternInsight \<Rightarrow> nat" where
  "insightEnd x = (case endIndex x of Some i \<Rightarrow> i | None \<Rightarrow> 0)"

text \<open>
  The difference fast EMA minus slow EMA at an index, the transition that the scan of
  \<open>detectTrendShifts\<close> reports at an index, and the shape of the insight it emits.
\<close>

definition emaDiff :: "double list \<Rightarrow> double list \<Rightarrow> nat \<Rightarrow> double" where
  "emaDiff e9 e21 i = fsub (js_get e9 i) (js_get e21 i)"

definition crossing :: "double list \<Rightarrow> double list \<Rightarrow> nat \<Rightarrow> Direction option" where
  "crossing e9 e21 i =
     (if fle (emaDiff e9 e21 (i - 1)) (Fin 0) \<and> fgt (emaDiff e9 e21 i) (Fin 0) then Some Bullish
      else if fge (emaDiff e9 e21 (i - 1)) (Fin 0) \<and> flt (emaDiff e9 e21 i) (Fin 0) then Some Bearish
      else None)"

definition crossInsight :: "nat \<Rightarrow> Direction \<Rightarrow> PatternInsight \<Rightarrow> bool" where
  "crossInsight i d x =
     (confidence x = Medium \<and> startIndex x = Some (i - 1) \<and> endIndex x = Some i \<and>
      direction x = Some d)"


section \<open>Sample inputs\<close>

text \<open>
  A bar whose open, high, low and close are one price, and two formatters standing for
  the library functions, for the concrete sessions below.
\<close>

definition flatBar :: "double \<Rightarrow> double \<Rightarrow> IntradayPoint" where
  "flatBar ts c =
     \<lparr> timestamp = ts, open' = c, high = c, low = c, close = c, volume = Fin 1000 \<rparr>"

definition sampleFormat :: "double \<Rightarrow> string" where
  "sampleFormat ms = ''HH:mm''"

definition sampleFixed :: "double \<Rightarrow> string" where
  "sampleFixed x = ''0.00''"

text \<open>
  The session of the specification's scenario: closes 100, 100.2, 100.4, 100.7, 100.5
  and 101.9 at consecutive minutes, each decimal read as the nearest double.
\<close>

definition scenarioSession :: "IntradayPoint list" where
  "scenarioSession =
     [flatBar (Fin 0) (Fin 100), flatBar (Fin 60) (rnd (1002 / 10)),
      flatBar (Fin 120) (rnd (1004 / 10)), flatBar (Fin 180) (rnd (1007 / 10)),
      flatBar (Fin 240) (rnd (1005 / 10)), flatBar (Fin 300) (rnd (1019 / 10))]"

text \<open>A session with two moves of the same magnitude, at indices 3 and 4.\<close>

definition tieSession :: "IntradayPoint list" where
  "tieSession =
     [flatBar (Fin 0) (Fin 100), flatBar (Fin 60) (Fin 100), flatBar (Fin 120) (Fin 100),
      flatBar (Fin 180) (Fin 101), flatBar (Fin 240) (Fin 101), flatBar (Fin 300) (Fin 100)]"

text \<open>Twenty bars at one price.\<close>

definition quietSession :: "IntradayPoint list" where
  "quietSession = map (\<lambda>i. flatBar (Fin (of_nat (60 * i))) (Fin 100)) [0..<20]"

text \<open>A session whose price never moves.\<close>

definition flatSession :: "IntradayPoint list" where
  "flatSession = [flatBar (Fin 0) (Fin 3), flatBar (Fin 60) (Fin 3)]"



section \<open>Evaluating the arithmetic\<close>

lemma bitlen_numeral_eval:
  "bitlen (numeral w) = bitlen (numeral w div 2) + 1"
  "bitlen 1 = 1"
  by (subst compute_bitlen, simp)+

lemma floor_rat_eval:
  "\<lfloor>(numeral a / numeral b :: rat)\<rfloor> = numeral a div numeral b"
  "\<lfloor>(1 / numeral b :: rat)\<rfloor> = 1 div numeral b"
  "\<lceil>(numeral a / numeral b :: rat)\<rceil> = - (- numeral a div numeral b)"
  "\<lceil>(1 / numeral b :: rat)\<rceil> = - (- 1 div numeral b)"
  using floor_divide_of_int_eq [of "numeral a" "numeral b", where ?'a = rat]
        floor_divide_of_int_eq [of 1 "numeral b", where ?'a = rat]
        ceiling_divide_eq_div [of "numeral a" "numeral b", where ?'a = rat]
        ceiling_divide_eq_div [of 1 "numeral b", where ?'a = rat]
  by simp_all

lemma rnd_eval:
  "rnd q = (if q = 0 then Fin 0 else rnd_exp q (pow2 (max (ilog2 \<bar>q\<bar> - 52) (- 1074))))"
  by (simp add: rnd_def rnd_exp_def rnd_at_def rnd_pack_def rnd_fin_def round_he_at_def
      round_he_def Let_def)

lemmas feval =
  rnd_eval rnd_exp_def rnd_at_def rnd_pack_def rnd_fin_def round_he_at_def
  ilog2_def pow2_def bitlen_numeral_eval floor_rat_eval
  fadd_def fsub_def fmul_def fdiv_def signed_zero_def signed_inf_def
  flt_def fle_def fgt_def fge_def

lemma threshold_eval: "BIG_MOVE_THRESHOLD = Fin (5404319552844595 / 9007199254740992)"
  by (simp add: BIG_MOVE_THRESHOLD_def feval)

lemma show_nat_digits:
  "show_nat 1 = ''1''" "show_nat 2 = ''2''" "show_nat 3 = ''3''" "show_nat 4 = ''4''" "show_nat 5 = ''5''"
  by (simp_all add: show_nat.simps)

section \<open>The smoother\<close>

lemma emaLoop_length: "length (emaLoop k prev cs) = length cs"
  by (induction cs arbitrary: prev) (simp_all add: Let_def)

lemma emaLoop_nth:
  "i < length cs \<Longrightarrow>
   emaLoop k prev cs ! i =
     fadd (fmul (cs ! i) k) (fmul ((prev # emaLoop k prev cs) ! i) (fsub (Fin 1) k))"
proof (induction cs arbitrary: prev i)
  case Nil
  then show ?case by simp
next
  case (Cons c cs)
  show ?case
  proof (cases i)
    case 0
    then show ?thesis by (simp add: Let_def)
  next
    case (Suc j)
    with Cons.prems have "j < length cs" by simp
    from Cons.IH [OF this] Suc show ?thesis by (simp add: Let_def)
  qed
qed

lemma calculateEMA_length: "length (calculateEMA points n) = length points"
  by (cases points) (simp_all add: calculateEMA_def Let_def emaLoop_length)

lemma calculateEMA_Cons:
  "calculateEMA (p # ps) len =
     close p # emaLoop (fdiv (Fin 2) (fadd len (Fin 1))) (close p) (map close ps)"
  by (simp add: calculateEMA_def Let_def)

text \<open>
  C2. For every sequence of points and every span \<open>n\<close>, \<open>calculateEMA\<close> returns a
  sequence as long as the input, whose first element is the first close and whose
  element \<open>i \<ge> 1\<close> is \<open>close[i] * k + ema[i-1] * (1 - k)\<close> with \<open>k = 2 / (n + 1)\<close>, each
  operation being the one of the doubles; the empty input gives the empty sequence.
\<close>

theorem calculateEMA_recurrence:
  "length (calculateEMA points n) = length points \<and>
   calculateEMA [] n = [] \<and>
   (points \<noteq> [] \<longrightarrow> calculateEMA points n ! 0 = close (points ! 0)) \<and>
   (\<forall>i. 1 \<le> i \<and> i < length points \<longrightarrow>
      calculateEMA points n ! i =
        fadd (fmul (close (points ! i)) (fdiv (Fin 2) (fadd n (Fin 1))))
             (fmul (calculateEMA points n ! (i - 1))
                   (fsub (Fin 1) (fdiv (Fin 2) (fadd n (Fin 1))))))"
proof (cases points)
  case Nil
  then show ?thesis by (simp add: calculateEMA_def)
next
  case (Cons p ps)
  let ?k = "fdiv (Fin 2) (fadd n (Fin 1))"
  have ema: "calculateEMA (p # ps) n = close p # emaLoop ?k (close p) (map close ps)"
    by (simp add: calculateEMA_def Let_def)
  have step: "calculateEMA points n ! i =
        fadd (fmul (close (points ! i)) ?k) (fmul (calculateEMA points n ! (i - 1)) (fsub (Fin 1) ?k))"
    if "1 \<le> i" "i < length points" for i
  proof -
    from that obtain j where j: "i = Suc j" "j < length ps"
      using Cons by (cases i) auto
    then show ?thesis
      using emaLoop_nth [of j "map close ps" ?k "close p"] Cons
      by (simp add: ema)
  qed
  show ?thesis
    using step Cons by (simp add: ema emaLoop_length calculateEMA_def)
qed

theorem calculateEMA_recurrence_witness:
  "[flatBar (Fin 0) (Fin 3), flatBar (Fin 60) (Fin 3)] \<noteq> [] \<and>
   (1::nat) \<le> 1 \<and> 1 < length [flatBar (Fin 0) (Fin 3), flatBar (Fin 60) (Fin 3)] \<and>
   calculateEMA [flatBar (Fin 0) (Fin 3), flatBar (Fin 60) (Fin 3)] (Fin 9) ! 0 = Fin 3 \<and>
   calculateEMA [flatBar (Fin 0) (Fin 3), flatBar (Fin 60) (Fin 3)] (Fin 9) ! 1 =
     Fin (6755399441055745 / 2251799813685248)"
  using calculateEMA_recurrence [of "[flatBar (Fin 0) (Fin 3), flatBar (Fin 60) (Fin 3)]" "Fin 9"]
  by (simp add: flatBar_def feval)

section \<open>Rounding and the order of the doubles\<close>

lemma pow2_powi: "pow2 e = 2 powi e"
  by (simp add: pow2_def power_int_def field_simps)

lemma pow2_pos: "0 < pow2 e"
  by (simp add: pow2_powi)

lemma pow2_add: "pow2 (a + b) = pow2 a * pow2 b"
  by (simp add: pow2_powi power_int_add)

lemma pow2_nonneg_int: "0 \<le> e \<Longrightarrow> pow2 e = of_int (2 ^ nat e)"
  by (simp add: pow2_def)

lemma ilog2_le: assumes "0 < a" shows "pow2 (ilog2 a) \<le> a"
proof (cases "1 \<le> a")
  case True
  then have pos: "0 < \<lfloor>a\<rfloor>" by linarith
  from bitlen_bounds [OF pos] have "2 ^ nat (bitlen \<lfloor>a\<rfloor> - 1) \<le> \<lfloor>a\<rfloor>" by simp
  then have "(of_int (2 ^ nat (bitlen \<lfloor>a\<rfloor> - 1)) :: rat) \<le> of_int \<lfloor>a\<rfloor>"
    by (simp only: of_int_le_iff)
  also have "\<dots> \<le> a" by simp
  finally have "(2::rat) ^ nat (bitlen \<lfloor>a\<rfloor> - 1) \<le> a" by simp
  moreover have "0 \<le> bitlen \<lfloor>a\<rfloor> - 1"
    using pos bitlen_eq_zero_iff [of "\<lfloor>a\<rfloor>"] bitlen_nonneg [of "\<lfloor>a\<rfloor>"] by linarith
  ultimately show ?thesis using True by (simp add: ilog2_def pow2_def)
next
  case False
  let ?y = "\<lceil>1 / a\<rceil> - 1"
  from False assms have "1 < 1 / a" by (simp add: field_simps)
  then have pos: "0 < ?y" by linarith
  then have bpos: "0 < bitlen ?y"
    using bitlen_eq_zero_iff [of ?y] bitlen_nonneg [of ?y] by linarith
  from bitlen_bounds [OF pos] have "?y < 2 ^ nat (bitlen ?y)" by simp
  then have "\<lceil>1 / a\<rceil> \<le> 2 ^ nat (bitlen ?y)" by linarith
  then have "1 / a \<le> of_int (2 ^ nat (bitlen ?y))"
    by (simp only: ceiling_le_iff)
  then have "1 / a \<le> 2 ^ nat (bitlen ?y)" by simp
  then have "1 / 2 ^ nat (bitlen ?y) \<le> a"
    using assms by (simp add: field_simps)
  then show ?thesis using False bpos by (simp add: ilog2_def pow2_def)
qed

lemma round_he_ge: "of_int n \<le> x \<Longrightarrow> n \<le> round_he x"
proof -
  assume "of_int n \<le> x"
  then have "n \<le> \<lfloor>x\<rfloor>" by (simp add: le_floor_iff)
  then show ?thesis by (simp add: round_he_def Let_def)
qed

lemma rnd_grid: "rnd q = Fin r \<Longrightarrow> on_grid r"
proof -
  assume a: "rnd q = Fin r"
  show ?thesis
  proof (cases "q = 0")
    case True
    with a have "r = 0" by (simp add: rnd_def)
    then show ?thesis by (simp add: on_grid_def)
  next
    case False
    define e where "e = max (ilog2 \<bar>q\<bar> - 52) (- 1074)"
    define m where "m = round_he (\<bar>q\<bar> / pow2 e)"
    have e: "0 \<le> e + 1074" by (simp add: e_def)
    have "pow2 e = pow2 (e + 1074) * pow2 (- 1074)"
      using pow2_add [of "e + 1074" "- 1074"] by simp
    then have p: "pow2 e = of_int (2 ^ nat (e + 1074)) * pow2 (- 1074)"
      using pow2_nonneg_int [OF e] by simp
    from a False have "r = 0 \<or> r = of_int m * pow2 e \<or> r = - (of_int m * pow2 e)"
      by (auto simp add: rnd_def Let_def e_def m_def split: if_splits)
    then have "r = of_int 0 * pow2 (- 1074) \<or> r = of_int (m * 2 ^ nat (e + 1074)) * pow2 (- 1074)
       \<or> r = of_int (- (m * 2 ^ nat (e + 1074))) * pow2 (- 1074)"
      by (auto simp add: p)
    then show ?thesis unfolding on_grid_def by blast
  qed
qed

lemma rnd_pos:
  assumes "on_grid d" "0 < d"
  shows "rnd d = PInf \<or> (\<exists>v. rnd d = Fin v \<and> 0 < v)"
proof -
  define e where "e = max (ilog2 d - 52) (- 1074)"
  define m where "m = round_he (d / pow2 e)"
  from assms obtain j :: int where j: "d = of_int j * pow2 (- 1074)"
    unfolding on_grid_def by blast
  with assms(2) have "0 < j" using pow2_pos [of "- 1074"]
    by (simp add: zero_less_mult_iff)
  then have "(1::rat) \<le> of_int j" by simp
  then have dmin: "pow2 (- 1074) \<le> d"
    using j pow2_pos [of "- 1074"] by (simp add: mult_le_cancel_right1)
  have "pow2 e \<le> d"
  proof (cases "ilog2 d - 52 \<le> - 1074")
    case True
    then have "e = - 1074" by (simp add: e_def)
    with dmin show ?thesis by simp
  next
    case False
    then have "e = ilog2 d - 52" by (simp add: e_def)
    then have "pow2 e = pow2 (ilog2 d) * pow2 (- 52)"
      using pow2_add [of "ilog2 d" "- 52"] by simp
    also have "\<dots> \<le> pow2 (ilog2 d)"
      using pow2_pos [of "ilog2 d"] by (simp add: pow2_def mult_le_cancel_left1)
    also have "\<dots> \<le> d" using ilog2_le [OF assms(2)] .
    finally show ?thesis .
  qed
  then have "of_int 1 \<le> d / pow2 e"
    using pow2_pos [of e] by (simp add: le_divide_eq)
  then have m1: "1 \<le> m" unfolding m_def by (rule round_he_ge)
  then have "0 < of_int m * pow2 e" using pow2_pos [of e] by simp
  with m1 assms(2) show ?thesis
    by (simp add: rnd_def Let_def e_def [symmetric] m_def [symmetric])
qed

lemma rnd_nonpos:
  assumes "d \<le> 0"
  shows "rnd d = NInf \<or> rnd d = NegZero \<or> (\<exists>v. rnd d = Fin v \<and> v \<le> 0)"
proof (cases "d = 0")
  case True
  then show ?thesis by (simp add: rnd_def)
next
  case False
  define e where "e = max (ilog2 \<bar>d\<bar> - 52) (- 1074)"
  define m where "m = round_he (\<bar>d\<bar> / pow2 e)"
  have "of_int 0 \<le> \<bar>d\<bar> / pow2 e" using pow2_pos [of e] by simp
  then have "0 \<le> m" unfolding m_def by (rule round_he_ge)
  then have v: "0 \<le> of_int m * pow2 e" using pow2_pos [of e] by simp
  have "rnd d = (if pow2 1024 \<le> of_int m * pow2 e then NInf
      else if m = 0 then NegZero else Fin (- (of_int m * pow2 e)))"
    using False assms unfolding rnd_def Let_def e_def m_def by simp
  with v show ?thesis by auto
qed


lemma on_grid_diff: "on_grid a \<Longrightarrow> on_grid b \<Longrightarrow> on_grid (b - a)"
proof -
  assume "on_grid a" "on_grid b"
  then obtain j k :: int where "a = of_int j * pow2 (- 1074)" "b = of_int k * pow2 (- 1074)"
    unfolding on_grid_def by blast
  then have "b - a = of_int (k - j) * pow2 (- 1074)" by (simp add: algebra_simps)
  then show ?thesis unfolding on_grid_def by blast
qed

lemma on_grid_abs: "on_grid a \<Longrightarrow> on_grid \<bar>a\<bar>"
proof -
  assume "on_grid a"
  then obtain j :: int where "a = of_int j * pow2 (- 1074)"
    unfolding on_grid_def by blast
  then have "\<bar>a\<bar> = of_int \<bar>j\<bar> * pow2 (- 1074)"
    using pow2_pos [of "- 1074"] by (simp add: abs_mult)
  then show ?thesis unfolding on_grid_def by blast
qed

lemma on_grid_0: "on_grid 0"
  unfolding on_grid_def by (rule exI [of _ 0]) simp

lemma fsub_Fin: "fsub (Fin b) (Fin a) = rnd (b - a)"
  by (simp add: fsub_def fadd_def)

lemma fsub_sign:
  assumes "magnitude_ok a" "magnitude_ok b"
  shows "fgt (fsub b a) (Fin 0) = flt a b"
proof (cases a)
  case (Fin qa)
  show ?thesis
  proof (cases b)
    case b: (Fin qb)
    have g: "on_grid (qb - qa)" using assms Fin b by (simp add: on_grid_diff)
    consider "qa < qb" | "qb \<le> qa" by linarith
    then show ?thesis
    proof cases
      case 1
      with rnd_pos [OF g] show ?thesis
        by (auto simp add: Fin b fsub_Fin fgt_def flt_def)
    next
      case 2
      with rnd_nonpos [of "qb - qa"] show ?thesis
        by (auto simp add: Fin b fsub_Fin fgt_def flt_def)
    qed
  qed (use assms Fin in \<open>simp_all add: fsub_def fadd_def fgt_def flt_def\<close>)
qed (use assms in \<open>cases b; simp add: fsub_def fadd_def fgt_def flt_def\<close>)+

lemma fmul_grid: "fmul a b = Fin r \<Longrightarrow> on_grid r"
  by (auto simp add: fmul_def signed_zero_def signed_inf_def on_grid_0 rnd_grid split: if_splits)

lemma magnitude_ok_fabs_fmul:
  assumes "fge (fabs (fmul a b)) t"
  shows "magnitude_ok (fabs (fmul a b))"
proof (cases "fmul a b")
  case (Fin r)
  then show ?thesis using fmul_grid [OF Fin] by (simp add: on_grid_abs)
next
  case NaN
  with assms show ?thesis by (simp add: fge_def fle_def)
qed (simp_all add: on_grid_0)

lemma flt_trans: "flt a b \<Longrightarrow> flt b c \<Longrightarrow> flt a c"
  by (auto simp add: flt_def)

lemma flt_asym: "flt a b \<Longrightarrow> \<not> flt b a"
  by (auto simp add: flt_def)

lemma flt_irrefl: "\<not> flt a a"
  by (simp add: flt_def)

lemma magnitude_total:
  "magnitude_ok a \<Longrightarrow> magnitude_ok b \<Longrightarrow> flt a b \<or> flt b a \<or> a = b"
  by (cases a; cases b) (auto simp add: flt_def)

lemma compareMoves_sign:
  "magnitude_ok (moveMagnitude x) \<Longrightarrow> magnitude_ok (moveMagnitude y) \<Longrightarrow>
   fgt (compareMoves x y) (Fin 0) = flt (moveMagnitude x) (moveMagnitude y)"
  by (simp add: compareMoves_def moveMagnitude_def fsub_sign)

lemma js_insert_set: "set (js_insert cmp x ys) = insert x (set ys)"
  by (induction ys) auto

lemma js_insert_length: "length (js_insert cmp x ys) = Suc (length ys)"
  by (induction ys) auto

lemma js_sort_Cons: "js_sort cmp (x # xs) = js_insert cmp x (js_sort cmp xs)"
  by (simp add: js_sort_def)

lemma js_sort_set: "set (js_sort cmp xs) = set xs"
  by (induction xs) (simp_all add: js_sort_Cons js_insert_set, simp add: js_sort_def)

lemma js_sort_length: "length (js_sort cmp xs) = length xs"
  by (induction xs) (simp_all add: js_sort_Cons js_insert_length, simp add: js_sort_def)

lemma js_insert_moveOrder:
  assumes "sorted_wrt moveOrder ys"
    and "\<forall>y\<in>set ys. magnitude_ok (moveMagnitude y) \<and> move_index x < move_index y"
    and "magnitude_ok (moveMagnitude x)"
  shows "sorted_wrt moveOrder (js_insert compareMoves x ys)"
  using assms
proof (induction ys)
  case Nil
  then show ?case by simp
next
  case (Cons y ys)
  have ky: "magnitude_ok (moveMagnitude y)" and xy: "move_index x < move_index y"
    using Cons.prems(2) by simp_all
  have cmp: "fgt (compareMoves x y) (Fin 0) = flt (moveMagnitude x) (moveMagnitude y)"
    using compareMoves_sign [OF Cons.prems(3) ky] .
  show ?case
  proof (cases "flt (moveMagnitude x) (moveMagnitude y)")
    case True
    have tail: "sorted_wrt moveOrder (js_insert compareMoves x ys)"
      using Cons.IH Cons.prems by simp
    have "moveOrder y x" using True by (simp add: moveOrder_def)
    then show ?thesis
      using True cmp tail Cons.prems(1) by (simp add: js_insert_set)
  next
    case False
    have "moveOrder x z" if z: "z \<in> set (y # ys)" for z
    proof -
      have kz: "magnitude_ok (moveMagnitude z)" and xz: "move_index x < move_index z"
        using Cons.prems(2) z by auto
      have yz: "z = y \<or> moveOrder y z" using Cons.prems(1) z by auto
      then have "\<not> flt (moveMagnitude y) (moveMagnitude z)"
        by (auto simp add: moveOrder_def flt_irrefl dest: flt_asym)
      then have "\<not> flt (moveMagnitude x) (moveMagnitude z)"
        using False magnitude_total [OF Cons.prems(3) ky] by (metis flt_trans)
      then show ?thesis
        using magnitude_total [OF Cons.prems(3) kz] xz by (auto simp add: moveOrder_def)
    qed
    then show ?thesis
      using False cmp Cons.prems(1) by simp
  qed
qed

lemma js_sort_moveOrder:
  assumes "sorted_wrt (\<lambda>a b. move_index a < move_index b) xs"
    and "\<forall>x\<in>set xs. magnitude_ok (moveMagnitude x)"
  shows "sorted_wrt moveOrder (js_sort compareMoves xs)"
  using assms
proof (induction xs)
  case Nil
  then show ?case by (simp add: js_sort_def)
next
  case (Cons x xs)
  then show ?case
    by (simp add: js_sort_Cons js_insert_moveOrder js_sort_set)
qed

section \<open>The big-move detector\<close>

lemma bigMoveStep_cases:
  assumes "BIG_MOVE_LOOKBACK \<le> i"
  shows "bigMoveStep points S i = S \<or>
         (\<exists>mv. bigMoveStep points S i = S @ [mv] \<and> move_index mv = i \<and>
               candidateMove points (Suc i) mv)"
  using assms by (simp add: bigMoveStep_def Let_def candidateMove_def pctAt_def)

lemma bigMoveScan_upto:
  "(\<forall>mv\<in>set (foldl (bigMoveStep points) [] [BIG_MOVE_LOOKBACK..<m]). candidateMove points m mv) \<and>
   sorted_wrt (\<lambda>a b. move_index a < move_index b)
     (foldl (bigMoveStep points) [] [BIG_MOVE_LOOKBACK..<m])"
proof (induction m)
  case 0
  then show ?case by simp
next
  case (Suc m)
  show ?case
  proof (cases "BIG_MOVE_LOOKBACK \<le> m")
    case False
    then show ?thesis by simp
  next
    case True
    let ?S = "foldl (bigMoveStep points) [] [BIG_MOVE_LOOKBACK..<m]"
    have step: "foldl (bigMoveStep points) [] [BIG_MOVE_LOOKBACK..<Suc m] = bigMoveStep points ?S m"
      using True by simp
    have old: "candidateMove points (Suc m) mv \<and> move_index mv < m" if "mv \<in> set ?S" for mv
      using Suc.IH that by (auto simp add: candidateMove_def)
    have srt: "sorted_wrt (\<lambda>a b. move_index a < move_index b) ?S"
      using Suc.IH by simp
    from bigMoveStep_cases [OF True, of points ?S]
    show ?thesis
    proof
      assume "bigMoveStep points ?S m = ?S"
      then show ?thesis unfolding step using old srt by simp
    next
      assume "\<exists>mv. bigMoveStep points ?S m = ?S @ [mv] \<and> move_index mv = m \<and>
               candidateMove points (Suc m) mv"
      then obtain mv where mv: "bigMoveStep points ?S m = ?S @ [mv]" "move_index mv = m"
        "candidateMove points (Suc m) mv" by blast
      show ?thesis unfolding step mv(1) using old srt mv(2,3)
        by (auto simp add: sorted_wrt_append)
    qed
  qed
qed

lemma bigMoveScan_candidates:
  "mv \<in> set (bigMoveScan points) \<Longrightarrow> candidateMove points (length points) mv"
  using bigMoveScan_upto [of points "length points"] by (simp add: bigMoveScan_def)

lemma bigMoveScan_sorted:
  "sorted_wrt (\<lambda>a b. move_index a < move_index b) (bigMoveScan points)"
  using bigMoveScan_upto [of points "length points"] by (simp add: bigMoveScan_def)

lemma candidateMove_magnitude:
  assumes "candidateMove points m mv"
  shows "magnitude_ok (moveMagnitude mv)"
proof -
  from assms have eq: "move_changePct mv = pctAt points (move_index mv)"
    and ge: "fge (fabs (pctAt points (move_index mv))) BIG_MOVE_THRESHOLD"
    by (simp_all add: candidateMove_def)
  from ge show ?thesis
    unfolding moveMagnitude_def eq pctAt_def pctChange_def by (rule magnitude_ok_fabs_fmul)
qed

lemma topMoves_length: "length (topMoves points) \<le> 4"
  by (simp add: topMoves_def)

lemma topMoves_candidates:
  "mv \<in> set (topMoves points) \<Longrightarrow> candidateMove points (length points) mv"
  using set_take_subset [of 4 "js_sort compareMoves (bigMoveScan points)"]
  by (auto simp add: topMoves_def js_sort_set intro: bigMoveScan_candidates)

lemma topMoves_sorted: "sorted_wrt moveOrder (topMoves points)"
proof -
  have "\<forall>x\<in>set (bigMoveScan points). magnitude_ok (moveMagnitude x)"
    using bigMoveScan_candidates candidateMove_magnitude by blast
  then have "sorted_wrt moveOrder (js_sort compareMoves (bigMoveScan points))"
    using bigMoveScan_sorted by (rule js_sort_moveOrder [rotated])
  then show ?thesis unfolding topMoves_def by (rule sorted_wrt_take)
qed

lemma detectBigMoves_lengths:
  "length (fst (detectBigMoves format toFixed2 points)) = length (topMoves points)"
  "length (snd (detectBigMoves format toFixed2 points)) = length (topMoves points)"
  by (simp_all add: detectBigMoves_def Let_def)

lemma detectBigMoves_nth:
  assumes "k < length (topMoves points)"
  shows "fst (detectBigMoves format toFixed2 points) ! k =
           bigMoveInsight format toFixed2 points (k, topMoves points ! k)"
    and "snd (detectBigMoves format toFixed2 points) ! k = bigMoveSignal points (topMoves points ! k)"
  using assms by (simp_all add: detectBigMoves_def Let_def nth_enumerate_eq)

lemma bigMoveInsight_fields:
  "insightMagnitude (bigMoveInsight format toFixed2 points (k, mv)) = moveMagnitude mv"
  "insightEnd (bigMoveInsight format toFixed2 points (k, mv)) = move_index mv"
  "endIndex (bigMoveInsight format toFixed2 points (k, mv)) = Some (move_index mv)"
  "startIndex (bigMoveInsight format toFixed2 points (k, mv)) = Some (move_spanStart mv)"
  "changePct (bigMoveInsight format toFixed2 points (k, mv)) = Some (move_changePct mv)"
  "direction (bigMoveInsight format toFixed2 points (k, mv)) = Some (move_direction mv)"
  "confidence (bigMoveInsight format toFixed2 points (k, mv)) = toConfidence (move_changePct mv)"
  by (simp_all add: bigMoveInsight_def Let_def insightMagnitude_def insightEnd_def moveMagnitude_def)

text \<open>
  C3. For every input \<open>detectBigMoves\<close> returns at most 4 insights and at most 4
  markers. Every returned insight ends at an index \<open>i\<close> with
  \<open>changePct = (close[i] - close[i-3]) / close[i-3] * 100\<close> and \<open>|changePct| \<ge> 0.6\<close>. The
  insights are in descending order of \<open>|changePct|\<close>, and of two insights of equal
  magnitude the one found first in the scan (the smaller end index) comes first.
\<close>

theorem detectBigMoves_ranked:
  "length (fst (detectBigMoves format toFixed2 points)) \<le> 4 \<and>
   length (snd (detectBigMoves format toFixed2 points)) \<le> 4 \<and>
   (\<forall>x\<in>set (fst (detectBigMoves format toFixed2 points)).
      \<exists>i. 3 \<le> i \<and> i < length points \<and> endIndex x = Some i \<and>
          changePct x =
            Some (fmul (fdiv (fsub (close (points ! i)) (close (points ! (i - 3))))
                             (close (points ! (i - 3)))) (Fin 100)) \<and>
          fge (insightMagnitude x) BIG_MOVE_THRESHOLD) \<and>
   sorted_wrt (\<lambda>x y. fge (insightMagnitude x) (insightMagnitude y))
     (fst (detectBigMoves format toFixed2 points)) \<and>
   sorted_wrt (\<lambda>x y. fge (insightMagnitude y) (insightMagnitude x) \<longrightarrow> insightEnd x < insightEnd y)
     (fst (detectBigMoves format toFixed2 points))"
proof -
  let ?ins = "fst (detectBigMoves format toFixed2 points)"
  let ?top = "topMoves points"
  have len: "length ?ins = length ?top" by (rule detectBigMoves_lengths)
  have nth: "?ins ! k = bigMoveInsight format toFixed2 points (k, ?top ! k)" if "k < length ?top" for k
    using that by (rule detectBigMoves_nth)
  have cand: "candidateMove points (length points) (?top ! k)" if "k < length ?top" for k
    using that by (simp add: topMoves_candidates)
  have each: "\<exists>i. 3 \<le> i \<and> i < length points \<and> endIndex x = Some i \<and>
          changePct x =
            Some (fmul (fdiv (fsub (close (points ! i)) (close (points ! (i - 3))))
                             (close (points ! (i - 3)))) (Fin 100)) \<and>
          fge (insightMagnitude x) BIG_MOVE_THRESHOLD" if "x \<in> set ?ins" for x
  proof -
    from that obtain k where k: "k < length ?top" "x = ?ins ! k"
      unfolding in_set_conv_nth len by blast
    let ?mv = "?top ! k"
    have c: "3 \<le> move_index ?mv" "move_index ?mv < length points"
      "move_changePct ?mv = pctAt points (move_index ?mv)"
      "fge (fabs (pctAt points (move_index ?mv))) BIG_MOVE_THRESHOLD"
      using cand [OF k(1)] by (simp_all add: candidateMove_def BIG_MOVE_LOOKBACK_def)
    have p: "pctAt points i = fmul (fdiv (fsub (close (points ! i)) (close (points ! (i - 3))))
                             (close (points ! (i - 3)))) (Fin 100)" for i
      by (simp add: pctAt_def pctChange_def BIG_MOVE_LOOKBACK_def)
    have x: "endIndex x = Some (move_index ?mv)" "changePct x = Some (pctAt points (move_index ?mv))"
      "insightMagnitude x = fabs (pctAt points (move_index ?mv))"
      unfolding k(2) nth [OF k(1)] by (simp_all add: bigMoveInsight_fields moveMagnitude_def c(3))
    show ?thesis
      by (rule exI [of _ "move_index ?mv"]) (simp only: x c(1,2,4) p [symmetric] simp_thms)
  qed
  have ord: "moveOrder (?top ! j) (?top ! k)" if "j < k" "k < length ?top" for j k
    using topMoves_sorted [of points] that by (simp add: sorted_wrt_iff_nth_less)
  have mag: "magnitude_ok (moveMagnitude (?top ! k))" if "k < length ?top" for k
    using cand [OF that] by (rule candidateMove_magnitude)
  have both: "fge (insightMagnitude (?ins ! j)) (insightMagnitude (?ins ! k)) \<and>
      (fge (insightMagnitude (?ins ! k)) (insightMagnitude (?ins ! j)) \<longrightarrow>
        insightEnd (?ins ! j) < insightEnd (?ins ! k))"
    if "j < k" "k < length ?ins" for j k
  proof -
    from that len have jk: "j < length ?top" "k < length ?top" by simp_all
    define a where "a = moveMagnitude (?top ! j)"
    define b where "b = moveMagnitude (?top ! k)"
    have a: "magnitude_ok a" and b: "magnitude_ok b" using mag jk by (simp_all add: a_def b_def)
    have o: "flt b a \<or> (a = b \<and> move_index (?top ! j) < move_index (?top ! k))"
      using ord [OF that(1) jk(2)] by (simp add: moveOrder_def a_def b_def)
    have na: "a \<noteq> NaN" using a by (cases a) simp_all
    have nb: "b \<noteq> NaN" using b by (cases b) simp_all
    have i: "insightMagnitude (?ins ! j) = a" "insightMagnitude (?ins ! k) = b"
      "insightEnd (?ins ! j) = move_index (?top ! j)" "insightEnd (?ins ! k) = move_index (?top ! k)"
      by (simp_all add: nth jk bigMoveInsight_fields a_def b_def)
    from o na nb show ?thesis unfolding i by (auto simp add: fge_def fle_def flt_def)
  qed
  have s1: "sorted_wrt (\<lambda>x y. fge (insightMagnitude x) (insightMagnitude y)) ?ins"
    unfolding sorted_wrt_iff_nth_less using both by blast
  have s2: "sorted_wrt (\<lambda>x y. fge (insightMagnitude y) (insightMagnitude x) \<longrightarrow>
      insightEnd x < insightEnd y) ?ins"
    unfolding sorted_wrt_iff_nth_less using both by blast
  have l1: "length ?ins \<le> 4" using topMoves_length [of points] by (simp add: len)
  have l2: "length (snd (detectBigMoves format toFixed2 points)) \<le> 4"
    using topMoves_length [of points] by (simp add: detectBigMoves_lengths)
  from l1 l2 each s1 s2 show ?thesis by blast
qed

text \<open>
  C9. Every signal marker of the analysis is anchored to an input point: the marker at
  position \<open>k\<close> carries the timestamp and the close of the point at the end index of the
  \<open>k\<close>-th insight, which is the big move it was made from.
\<close>

theorem signals_anchored:
  "length (signals (analyzeIntradayData format toFixed2 points)) \<le>
     length (insights (analyzeIntradayData format toFixed2 points)) \<and>
   (\<forall>k<length (signals (analyzeIntradayData format toFixed2 points)).
      \<exists>i<length points.
        endIndex (insights (analyzeIntradayData format toFixed2 points) ! k) = Some i \<and>
        signal_timestamp (signals (analyzeIntradayData format toFixed2 points) ! k) =
          timestamp (points ! i) \<and>
        price (signals (analyzeIntradayData format toFixed2 points) ! k) = close (points ! i))"
proof (cases "points = []")
  case True
  then show ?thesis by (simp add: analyzeIntradayData_def)
next
  case False
  let ?big = "detectBigMoves format toFixed2 points"
  let ?top = "topMoves points"
  let ?rest = "detectTrendShifts format points (calculateEMA points (Fin 9))
      (calculateEMA points (Fin 21)) @ detectCompressionBreakout toFixed2 points"
  have sig: "signals (analyzeIntradayData format toFixed2 points) = snd ?big"
    and ins: "insights (analyzeIntradayData format toFixed2 points) = take 6 (fst ?big @ ?rest)"
    using False by (simp_all add: analyzeIntradayData_def Let_def)
  have len: "length (fst ?big) = length ?top" "length (snd ?big) = length ?top"
    by (rule detectBigMoves_lengths)+
  have four: "length ?top \<le> 4" by (rule topMoves_length)
  have anchor: "\<exists>i<length points.
        endIndex (take 6 (fst ?big @ ?rest) ! k) = Some i \<and>
        signal_timestamp (snd ?big ! k) = timestamp (points ! i) \<and>
        price (snd ?big ! k) = close (points ! i)" if k: "k < length ?top" for k
  proof -
    have "take 6 (fst ?big @ ?rest) ! k = fst ?big ! k"
      using k four by (simp add: nth_append len)
    then have e: "endIndex (take 6 (fst ?big @ ?rest) ! k) = Some (move_index (?top ! k))"
      by (simp add: detectBigMoves_nth [OF k] bigMoveInsight_fields)
    have s: "signal_timestamp (snd ?big ! k) = timestamp (points ! move_index (?top ! k))"
      "price (snd ?big ! k) = close (points ! move_index (?top ! k))"
      by (simp_all add: detectBigMoves_nth [OF k] bigMoveSignal_def)
    have "candidateMove points (length points) (?top ! k)"
      using k by (simp add: topMoves_candidates)
    then have "move_index (?top ! k) < length points" by (simp add: candidateMove_def)
    with e s show ?thesis by blast
  qed
  have "length (snd ?big) \<le> length (take 6 (fst ?big @ ?rest))"
    using four by (simp add: len)
  then show ?thesis unfolding sig ins using anchor by (simp add: len)
qed

section \<open>The trend-shift detector\<close>

lemma trendStep_cases:
  "(crossing e9 e21 i = None \<and> trendStep format points e9 e21 acc i = acc) \<or>
   (\<exists>d x. crossing e9 e21 i = Some d \<and> trendStep format points e9 e21 acc i = acc @ [x] \<and>
      crossInsight i d x)"
  by (simp add: trendStep_def crossing_def emaDiff_def Let_def crossInsight_def)

lemma trendScan_upto:
  "(\<forall>x\<in>set (foldl (trendStep format points e9 e21) [] [1..<m]).
      \<exists>i d. 1 \<le> i \<and> i < m \<and> crossing e9 e21 i = Some d \<and> crossInsight i d x) \<and>
   (\<forall>i d. 1 \<le> i \<and> i < m \<and> crossing e9 e21 i = Some d \<longrightarrow>
      (\<exists>x\<in>set (foldl (trendStep format points e9 e21) [] [1..<m]). crossInsight i d x)) \<and>
   sorted_wrt (\<lambda>x y. insightEnd x < insightEnd y)
     (foldl (trendStep format points e9 e21) [] [1..<m])"
proof (induction m)
  case 0
  then show ?case by simp
next
  case (Suc m)
  show ?case
  proof (cases "1 \<le> m")
    case False
    then show ?thesis by simp
  next
    case True
    let ?T = "foldl (trendStep format points e9 e21) [] [1..<m]"
    have step: "foldl (trendStep format points e9 e21) [] [1..<Suc m] =
        trendStep format points e9 e21 ?T m"
      using True by simp
    have old: "\<exists>i d. 1 \<le> i \<and> i < m \<and> crossing e9 e21 i = Some d \<and> crossInsight i d x"
      if "x \<in> set ?T" for x using Suc.IH that by blast
    have oldend: "insightEnd x < m" if "x \<in> set ?T" for x
      using old [OF that] by (auto simp add: crossInsight_def insightEnd_def)
    have found: "\<exists>x\<in>set ?T. crossInsight i d x"
      if "1 \<le> i" "i < m" "crossing e9 e21 i = Some d" for i d
      using Suc.IH that by blast
    have srt: "sorted_wrt (\<lambda>x y. insightEnd x < insightEnd y) ?T" using Suc.IH by simp
    from trendStep_cases [of e9 e21 m format points ?T]
    show ?thesis
    proof (elim disjE conjE exE)
      assume None: "crossing e9 e21 m = None"
        and eq: "trendStep format points e9 e21 ?T m = ?T"
      have a: "\<forall>y\<in>set ?T.
          \<exists>i d. 1 \<le> i \<and> i < Suc m \<and> crossing e9 e21 i = Some d \<and> crossInsight i d y"
      proof
        fix y assume "y \<in> set ?T"
        from old [OF this] obtain i d where
          "1 \<le> i" "i < m" "crossing e9 e21 i = Some d" "crossInsight i d y" by blast
        then have "1 \<le> i \<and> i < Suc m \<and> crossing e9 e21 i = Some d \<and> crossInsight i d y"
          by simp
        then show "\<exists>i d. 1 \<le> i \<and> i < Suc m \<and> crossing e9 e21 i = Some d \<and> crossInsight i d y"
          by blast
      qed
      have b: "\<forall>i d'. 1 \<le> i \<and> i < Suc m \<and> crossing e9 e21 i = Some d' \<longrightarrow>
          (\<exists>y\<in>set ?T. crossInsight i d' y)"
      proof (intro allI impI)
        fix i d' assume h: "1 \<le> i \<and> i < Suc m \<and> crossing e9 e21 i = Some d'"
        with None have "i \<noteq> m" by auto
        with h have "i < m" by simp
        with h found [of i d'] show "\<exists>y\<in>set ?T. crossInsight i d' y" by simp
      qed
      show ?thesis unfolding step eq using a b srt by blast
    next
      fix d x
      assume Some: "crossing e9 e21 m = Some d"
        and eq: "trendStep format points e9 e21 ?T m = ?T @ [x]"
        and x: "crossInsight m d x"
      from x have xend: "insightEnd x = m" by (simp add: crossInsight_def insightEnd_def)
      have a: "\<forall>y\<in>set (?T @ [x]).
          \<exists>i d. 1 \<le> i \<and> i < Suc m \<and> crossing e9 e21 i = Some d \<and> crossInsight i d y"
      proof
        fix y assume "y \<in> set (?T @ [x])"
        then consider "y \<in> set ?T" | "y = x" by auto
        then show "\<exists>i d. 1 \<le> i \<and> i < Suc m \<and> crossing e9 e21 i = Some d \<and> crossInsight i d y"
        proof cases
          case 1
          from old [OF 1] obtain i d where
            "1 \<le> i" "i < m" "crossing e9 e21 i = Some d" "crossInsight i d y" by blast
          then have "1 \<le> i \<and> i < Suc m \<and> crossing e9 e21 i = Some d \<and> crossInsight i d y"
            by simp
          then show ?thesis by blast
        next
          case 2
          with True Some x have "1 \<le> m \<and> m < Suc m \<and> crossing e9 e21 m = Some d \<and> crossInsight m d y"
            by simp
          then show ?thesis by blast
        qed
      qed
      have b: "\<forall>i d'. 1 \<le> i \<and> i < Suc m \<and> crossing e9 e21 i = Some d' \<longrightarrow>
          (\<exists>y\<in>set (?T @ [x]). crossInsight i d' y)"
      proof (intro allI impI)
        fix i d' assume h: "1 \<le> i \<and> i < Suc m \<and> crossing e9 e21 i = Some d'"
        show "\<exists>y\<in>set (?T @ [x]). crossInsight i d' y"
        proof (cases "i = m")
          case True
          with h Some x show ?thesis by auto
        next
          case False
          with h have "i < m" by simp
          with h found [of i d'] show ?thesis by auto
        qed
      qed
      have c: "sorted_wrt (\<lambda>x y. insightEnd x < insightEnd y) (?T @ [x])"
        using srt oldend xend by (simp add: sorted_wrt_append)
      show ?thesis unfolding step eq using a b c by blast
    qed
  qed
qed

text \<open>
  C4. For every input and every pair of EMA series, the scan of \<open>detectTrendShifts\<close>
  emits a bullish insight at index \<open>i\<close> exactly when \<open>prevDiff \<le> 0\<close> and \<open>currDiff > 0\<close>, and
  a bearish one exactly when \<open>prevDiff \<ge> 0\<close> and \<open>currDiff < 0\<close>, where the two are the
  differences \<open>ema9 - ema21\<close> at \<open>i - 1\<close> and at \<open>i\<close>. Every emitted insight has confidence
  medium and spans \<open>[i - 1, i]\<close>; the insights are in increasing index order, and the result
  keeps the last 3 of them.
\<close>

theorem detectTrendShifts_crossings:
  "(\<forall>i. 1 \<le> i \<and> i < length points \<longrightarrow>
      ((\<exists>x\<in>set (trendScan format points e9 e21). endIndex x = Some i \<and> direction x = Some Bullish)
         \<longleftrightarrow> fle (emaDiff e9 e21 (i - 1)) (Fin 0) \<and> fgt (emaDiff e9 e21 i) (Fin 0)) \<and>
      ((\<exists>x\<in>set (trendScan format points e9 e21). endIndex x = Some i \<and> direction x = Some Bearish)
         \<longleftrightarrow> fge (emaDiff e9 e21 (i - 1)) (Fin 0) \<and> flt (emaDiff e9 e21 i) (Fin 0))) \<and>
   (\<forall>x\<in>set (trendScan format points e9 e21).
      confidence x = Medium \<and>
      (\<exists>i. 1 \<le> i \<and> i < length points \<and> startIndex x = Some (i - 1) \<and> endIndex x = Some i)) \<and>
   sorted_wrt (\<lambda>x y. insightEnd x < insightEnd y) (trendScan format points e9 e21) \<and>
   detectTrendShifts format points e9 e21 =
     drop (length (trendScan format points e9 e21) - 3) (trendScan format points e9 e21) \<and>
   length (detectTrendShifts format points e9 e21) \<le> 3"
proof -
  let ?T = "trendScan format points e9 e21"
  note inv = trendScan_upto [of format points e9 e21 "length points", folded trendScan_def]
  have mem: "\<exists>i d. 1 \<le> i \<and> i < length points \<and> crossing e9 e21 i = Some d \<and> crossInsight i d x"
    if "x \<in> set ?T" for x using inv that by blast
  have found: "\<exists>x\<in>set ?T. crossInsight i d x"
    if "1 \<le> i" "i < length points" "crossing e9 e21 i = Some d" for i d
    using inv that by blast
  have srt: "sorted_wrt (\<lambda>x y. insightEnd x < insightEnd y) ?T" using inv by blast
  have excl: "\<not> (fgt c (Fin 0) \<and> flt c (Fin 0))" for c
    by (auto simp add: fgt_def dest: flt_asym)
  have bull: "crossing e9 e21 i = Some Bullish \<longleftrightarrow>
      fle (emaDiff e9 e21 (i - 1)) (Fin 0) \<and> fgt (emaDiff e9 e21 i) (Fin 0)" for i
    by (simp add: crossing_def)
  have bear: "crossing e9 e21 i = Some Bearish \<longleftrightarrow>
      fge (emaDiff e9 e21 (i - 1)) (Fin 0) \<and> flt (emaDiff e9 e21 i) (Fin 0)" for i
    using excl [of "emaDiff e9 e21 i"] by (auto simp add: crossing_def)
  have iff: "(\<exists>x\<in>set ?T. endIndex x = Some i \<and> direction x = Some d) \<longleftrightarrow> crossing e9 e21 i = Some d"
    if i: "1 \<le> i" "i < length points" for i d
  proof
    assume "\<exists>x\<in>set ?T. endIndex x = Some i \<and> direction x = Some d"
    then obtain x where x: "x \<in> set ?T" "endIndex x = Some i" "direction x = Some d" by blast
    from mem [OF x(1)] obtain i' d' where
      "crossing e9 e21 i' = Some d'" "crossInsight i' d' x" by blast
    with x show "crossing e9 e21 i = Some d" by (simp add: crossInsight_def)
  next
    assume "crossing e9 e21 i = Some d"
    from found [OF i this] show "\<exists>x\<in>set ?T. endIndex x = Some i \<and> direction x = Some d"
      by (auto simp add: crossInsight_def)
  qed
  have a: "\<forall>i. 1 \<le> i \<and> i < length points \<longrightarrow>
      ((\<exists>x\<in>set ?T. endIndex x = Some i \<and> direction x = Some Bullish)
         \<longleftrightarrow> fle (emaDiff e9 e21 (i - 1)) (Fin 0) \<and> fgt (emaDiff e9 e21 i) (Fin 0)) \<and>
      ((\<exists>x\<in>set ?T. endIndex x = Some i \<and> direction x = Some Bearish)
         \<longleftrightarrow> fge (emaDiff e9 e21 (i - 1)) (Fin 0) \<and> flt (emaDiff e9 e21 i) (Fin 0))"
    using iff bull bear by simp
  have b: "\<forall>x\<in>set ?T. confidence x = Medium \<and>
      (\<exists>i. 1 \<le> i \<and> i < length points \<and> startIndex x = Some (i - 1) \<and> endIndex x = Some i)"
  proof
    fix x assume "x \<in> set ?T"
    from mem [OF this] show "confidence x = Medium \<and>
      (\<exists>i. 1 \<le> i \<and> i < length points \<and> startIndex x = Some (i - 1) \<and> endIndex x = Some i)"
      by (auto simp add: crossInsight_def)
  qed
  have d: "detectTrendShifts format points e9 e21 = drop (length ?T - 3) ?T"
    by (simp add: detectTrendShifts_def Let_def)
  have e: "length (detectTrendShifts format points e9 e21) \<le> 3"
    unfolding d by simp
  from a b srt d e show ?thesis by blast
qed

section \<open>The compression-breakout detector\<close>


lemma compressionStep_cases:
  "compressionStep points st i =
     (if flt (windowRange points i) (fst st) then (windowRange points i, i) else st)"
  by (simp add: compressionStep_def Let_def)







section \<open>The orchestrator\<close>

lemma detectBigMoves_Nil: "detectBigMoves format toFixed2 [] = ([], [])"
  by (simp add: detectBigMoves_def topMoves_def bigMoveScan_def js_sort_def enumerate_eq_zip)

lemma detectTrendShifts_Nil: "detectTrendShifts format [] e9 e21 = []"
  by (simp add: detectTrendShifts_def trendScan_def)

lemma detectCompressionBreakout_Nil: "detectCompressionBreakout toFixed2 [] = []"
  by (simp add: detectCompressionBreakout_def)

lemma analyze_insights:
  "insights (analyzeIntradayData format toFixed2 points) =
     take 6 (fst (detectBigMoves format toFixed2 points) @
             detectTrendShifts format points
               (calculateEMA points (Fin 9)) (calculateEMA points (Fin 21)) @
             detectCompressionBreakout toFixed2 points)"
  by (cases points)
     (simp_all add: analyzeIntradayData_def Let_def detectBigMoves_Nil detectTrendShifts_Nil
        detectCompressionBreakout_Nil)

lemma analyze_signals:
  "signals (analyzeIntradayData format toFixed2 points) = snd (detectBigMoves format toFixed2 points)"
  by (cases points) (simp_all add: analyzeIntradayData_def Let_def detectBigMoves_Nil)

text \<open>
  C6. For every input the final insights list has at most 6 entries, and it is the
  first 6 elements (or all of them) of the big-move insights followed by the trend-shift
  insights followed by the compression insight: later categories are dropped first.
\<close>

theorem insights_capped_in_priority_order:
  "length (insights (analyzeIntradayData format toFixed2 points)) \<le> 6 \<and>
   insights (analyzeIntradayData format toFixed2 points) =
     take 6 (fst (detectBigMoves format toFixed2 points) @
             detectTrendShifts format points
               (calculateEMA points (Fin 9)) (calculateEMA points (Fin 21)) @
             detectCompressionBreakout toFixed2 points)"
  by (simp add: analyze_insights)

text \<open>
  C7. On the empty input the orchestrator returns the fixed no-data narrative, five
  zero statistics and empty insights, signals and EMA series. No other input gives that
  result: on every non-empty input the result is assembled from the smoother, the
  detectors, the statistics and the narrative builder.
\<close>

theorem analyze_empty_input:
  "analyzeIntradayData format toFixed2 [] =
     \<lparr> narrative = ''No intraday prints were returned from the data source.'',
       stats = \<lparr> rangePct = Fin 0, avgVolume = Fin 0, sessionChangePct = Fin 0,
                 sessionHigh = Fin 0, sessionLow = Fin 0 \<rparr>,
       insights = [], signals = [], ema9 = [], ema21 = [] \<rparr> \<and>
   (analyzeIntradayData format toFixed2 points = analyzeIntradayData format toFixed2 []
      \<longleftrightarrow> points = []) \<and>
   (points \<noteq> [] \<longrightarrow>
      analyzeIntradayData format toFixed2 points =
        \<lparr> narrative = buildNarrative toFixed2 points,
          stats = sessionStats points,
          insights = take 6 (fst (detectBigMoves format toFixed2 points) @
             detectTrendShifts format points
               (calculateEMA points (Fin 9)) (calculateEMA points (Fin 21)) @
             detectCompressionBreakout toFixed2 points),
          signals = snd (detectBigMoves format toFixed2 points),
          ema9 = calculateEMA points (Fin 9),
          ema21 = calculateEMA points (Fin 21) \<rparr>)"
proof -
  have "calculateEMA points (Fin 9) \<noteq> []" if "points \<noteq> []"
    using that by (cases points) (simp_all add: calculateEMA_def Let_def)
  then show ?thesis
    by (cases points) (auto simp add: analyzeIntradayData_def Let_def)
qed

theorem analyze_empty_input_witness:
  "[flatBar (Fin 0) (Fin 3)] \<noteq> [] \<and>
   ema9 (analyzeIntradayData sampleFormat sampleFixed [flatBar (Fin 0) (Fin 3)]) = [Fin 3] \<and>
   analyzeIntradayData sampleFormat sampleFixed [flatBar (Fin 0) (Fin 3)] \<noteq>
     analyzeIntradayData sampleFormat sampleFixed []"
  using analyze_empty_input [of sampleFormat sampleFixed "[flatBar (Fin 0) (Fin 3)]"]
  by (simp add: calculateEMA_def flatBar_def)

section \<open>The rounding error of the smoother\<close>

text \<open>
  Rounding a value of the normal range changes it by a factor between \<open>1 - 2^-53\<close> and
  \<open>1 + 2^-53\<close>. One step of the EMA recurrence rounds three times, and the rounded factors
  \<open>k\<close> and \<open>1 - k\<close> need not add up to 1; for the spans 9 and 21 the error does not
  accumulate beyond a factor \<open>1 \<plusminus> 2^-48\<close>.
\<close>

lemma round_he_err: "\<bar>of_int (round_he x) - x\<bar> \<le> 1 / 2"
proof -
  have "of_int \<lfloor>x\<rfloor> \<le> x" "x < of_int \<lfloor>x\<rfloor> + 1" by linarith+
  then show ?thesis by (auto simp add: round_he_def Let_def)
qed

lemma pow2_double: "pow2 (e + 1) = 2 * pow2 e"
  using pow2_add [of e 1] by (simp add: pow2_def)

lemma pow2_mono: "a \<le> b \<Longrightarrow> pow2 a \<le> pow2 b"
  by (simp add: pow2_powi power_int_increasing)

lemma rnd_rel:
  assumes lo: "pow2 (- 1022) \<le> q" and hi: "q \<le> pow2 1023"
  shows "\<exists>v. rnd q = Fin v \<and> q * (1 - 1 / 2 ^ 53) \<le> v \<and> v \<le> q * (1 + 1 / 2 ^ 53)"
proof -
  have qpos: "0 < q" using lo pow2_pos [of "- 1022"] by linarith
  define e where "e = max (ilog2 q - 52) (- 1074)"
  define m where "m = round_he (q / pow2 e)"
  define v where "v = of_int m * pow2 e"
  have pe: "0 < pow2 e" by (rule pow2_pos)
  have p52: "pow2 (- 52) = 1 / 2 ^ 52" by (simp add: pow2_def)
  have quantum: "pow2 e \<le> q / 2 ^ 52"
  proof (cases "ilog2 q - 52 \<le> - 1074")
    case True
    then have "e = - 1074" by (simp add: e_def)
    then have "pow2 e = pow2 (- 1022) * pow2 (- 52)"
      using pow2_add [of "- 1022" "- 52"] by simp
    also have "\<dots> \<le> q * pow2 (- 52)"
      using lo pow2_pos [of "- 52"] by (simp add: mult_right_mono)
    finally show ?thesis by (simp add: p52)
  next
    case False
    then have "e = ilog2 q - 52" by (simp add: e_def)
    then have "pow2 e = pow2 (ilog2 q) * pow2 (- 52)"
      using pow2_add [of "ilog2 q" "- 52"] by simp
    also have "\<dots> \<le> q * pow2 (- 52)"
      using ilog2_le [OF qpos] pow2_pos [of "- 52"] by (simp add: mult_right_mono)
    finally show ?thesis by (simp add: p52)
  qed
  have "\<bar>of_int m - q / pow2 e\<bar> \<le> 1 / 2" unfolding m_def by (rule round_he_err)
  then have "\<bar>of_int m - q / pow2 e\<bar> * pow2 e \<le> 1 / 2 * pow2 e"
    using pe by (simp add: mult_right_mono)
  moreover have "\<bar>of_int m - q / pow2 e\<bar> * pow2 e = \<bar>v - q\<bar>"
  proof -
    have "(of_int m - q / pow2 e) * pow2 e = v - q"
      using pe by (simp add: v_def field_simps)
    moreover have "\<bar>of_int m - q / pow2 e\<bar> * pow2 e = \<bar>(of_int m - q / pow2 e) * pow2 e\<bar>"
      using pe by (simp add: abs_mult)
    ultimately show ?thesis by simp
  qed
  ultimately have err: "\<bar>v - q\<bar> \<le> pow2 e / 2" by simp
  have "pow2 e / 2 \<le> q / 2 ^ 53" using quantum by simp
  with err have rel: "\<bar>v - q\<bar> \<le> q / 2 ^ 53" by linarith
  have expand: "q * (1 - 1 / 2 ^ 53) = q - q / 2 ^ 53" "q * (1 + 1 / 2 ^ 53) = q + q / 2 ^ 53"
    by (simp_all add: algebra_simps)
  have lower: "q * (1 - 1 / 2 ^ 53) \<le> v" and upper: "v \<le> q * (1 + 1 / 2 ^ 53)"
    unfolding expand using rel by linarith+
  have "q * (1 - 1 / 2 ^ 53) > 0" using qpos by simp
  with lower have vpos: "0 < v" by linarith
  then have m0: "m \<noteq> 0" by (auto simp add: v_def)
  have "q * (1 + 1 / 2 ^ 53) < q * 2" using qpos by simp
  also have "\<dots> \<le> pow2 1023 * 2" using hi by simp
  also have "\<dots> = pow2 1024" using pow2_double [of 1023] by simp
  finally have "v < pow2 1024" using upper by linarith
  then have "rnd q = Fin v"
    using qpos m0 by (simp add: rnd_def Let_def e_def [symmetric] m_def [symmetric] v_def [symmetric])
  with lower upper show ?thesis by blast
qed

lemma fmul_Fin: "a \<noteq> 0 \<Longrightarrow> b \<noteq> 0 \<Longrightarrow> fmul (Fin a) (Fin b) = rnd (a * b)"
  by (simp add: fmul_def)

lemma fadd_Fin: "fadd (Fin a) (Fin b) = rnd (a + b)"
  by (simp add: fadd_def)

lemma pow2_half: "pow2 e / 2 = pow2 (e - 1)"
  using pow2_double [of "e - 1"] by simp

lemma ema_step_bound:
  fixes k kp c e m M :: rat
  assumes k: "1 / 2 ^ 10 \<le> k" "k \<le> 1" and kp: "1 / 2 ^ 10 \<le> kp" "kp \<le> 1"
    and U: "(1 + 1 / 2 ^ 53)\<^sup>2 * (k + kp * (1 + 1 / 2 ^ 48)) \<le> 1 + 1 / 2 ^ 48"
    and L: "1 - 1 / 2 ^ 48 \<le> (1 - 1 / 2 ^ 53)\<^sup>2 * (k + kp * (1 - 1 / 2 ^ 48))"
    and range: "pow2 (- 1000) \<le> m" "M \<le> pow2 1000" "m \<le> c" "c \<le> M"
    and prev: "m * (1 - 1 / 2 ^ 48) \<le> e" "e \<le> M * (1 + 1 / 2 ^ 48)"
  shows "\<exists>e'. fadd (fmul (Fin c) (Fin k)) (fmul (Fin e) (Fin kp)) = Fin e' \<and>
    m * (1 - 1 / 2 ^ 48) \<le> e' \<and> e' \<le> M * (1 + 1 / 2 ^ 48)"
proof -
  define u :: rat where "u = 1 / 2 ^ 53"
  define t :: rat where "t = 1 / 2 ^ 48"
  have u: "0 < u" "u \<le> 1 / 2" and t: "0 < t" "t \<le> 1 / 2" by (simp_all add: u_def t_def)
  note U' = U [folded u_def t_def] and L' = L [folded u_def t_def]
  note prev' = prev [folded t_def]
  have p10: "pow2 (- 10) = 1 / 2 ^ 10" by (simp add: pow2_def)
  have mpos: "0 < m" using range(1) pow2_pos [of "- 1000"] by linarith
  have cpos: "0 < c" and Mpos: "0 < M" using mpos range by linarith+
  have kpos: "0 < k" and kppos: "0 < kp" using k(1) kp(1) by simp_all
  have elo: "pow2 (- 1001) \<le> e"
  proof -
    have "pow2 (- 1000) * (1 / 2) \<le> m * (1 - t)"
      using range(1) t mpos by (intro mult_mono) simp_all
    then show ?thesis using prev'(1) pow2_half [of "- 1000"] by simp
  qed
  have epos: "0 < e" using elo pow2_pos [of "- 1001"] by linarith
  have ehi: "e \<le> pow2 1001"
  proof -
    have "M * (1 + t) \<le> pow2 1000 * 2"
      using range(2) t Mpos by (intro mult_mono) simp_all
    then show ?thesis using prev'(2) pow2_double [of 1000] by simp
  qed
  \<comment> \<open>the first product\<close>
  have "pow2 (- 1000) * pow2 (- 10) \<le> c * k"
    using range(1,3) k(1) pow2_pos [of "- 1000"] by (intro mult_mono) (simp_all add: p10)
  then have ck_lo: "pow2 (- 1010) \<le> c * k" using pow2_add [of "- 1000" "- 10"] by simp
  have "c * k \<le> pow2 1000 * 1"
    using range(2,4) k(2) cpos kpos by (intro mult_mono) simp_all
  then have ck_hi: "c * k \<le> pow2 1000" by simp
  have "pow2 (- 1022) \<le> c * k" "c * k \<le> pow2 1023"
    using ck_lo ck_hi pow2_mono [of "- 1022" "- 1010"] pow2_mono [of 1000 1023] by simp_all
  from rnd_rel [OF this] obtain a where a: "rnd (c * k) = Fin a"
    "c * k * (1 - u) \<le> a" "a \<le> c * k * (1 + u)" unfolding u_def by blast
  \<comment> \<open>the second product\<close>
  have "pow2 (- 1001) * pow2 (- 10) \<le> e * kp"
    using elo kp(1) pow2_pos [of "- 1001"] by (intro mult_mono) (simp_all add: p10)
  then have ek_lo: "pow2 (- 1011) \<le> e * kp" using pow2_add [of "- 1001" "- 10"] by simp
  have "e * kp \<le> pow2 1001 * 1"
    using ehi kp(2) epos kppos by (intro mult_mono) simp_all
  then have ek_hi: "e * kp \<le> pow2 1001" by simp
  have "pow2 (- 1022) \<le> e * kp" "e * kp \<le> pow2 1023"
    using ek_lo ek_hi pow2_mono [of "- 1022" "- 1011"] pow2_mono [of 1001 1023] by simp_all
  from rnd_rel [OF this] obtain b where b: "rnd (e * kp) = Fin b"
    "e * kp * (1 - u) \<le> b" "b \<le> e * kp * (1 + u)" unfolding u_def by blast
  \<comment> \<open>the sum\<close>
  have ckpos: "0 < c * k" and ekpos: "0 < e * kp" using cpos kpos epos kppos by simp_all
  have apos: "0 < a"
  proof -
    have "0 < c * k * (1 - u)" using ckpos u by simp
    with a(2) show ?thesis by linarith
  qed
  have bpos: "0 < b"
  proof -
    have "0 < e * kp * (1 - u)" using ekpos u by simp
    with b(2) show ?thesis by linarith
  qed
  have "pow2 (- 1010) * (1 / 2) \<le> c * k * (1 - u)"
    using ck_lo u ckpos by (intro mult_mono) simp_all
  then have "pow2 (- 1011) \<le> a" using a(2) pow2_half [of "- 1010"] by simp
  then have ab_lo: "pow2 (- 1022) \<le> a + b"
    using bpos pow2_mono [of "- 1022" "- 1011"] by linarith
  have "c * k * (1 + u) \<le> pow2 1000 * 2" "e * kp * (1 + u) \<le> pow2 1001 * 2"
    using ck_hi ek_hi u ckpos ekpos by (intro mult_mono; simp)+
  then have "a + b \<le> pow2 1001 + pow2 1002"
    using a(3) b(3) pow2_double [of 1000] pow2_double [of 1001] by simp
  also have "\<dots> \<le> pow2 1002 + pow2 1002" using pow2_mono [of 1001 1002] by simp
  also have "\<dots> = pow2 1003" using pow2_double [of 1002] by simp
  finally have ab_hi: "a + b \<le> pow2 1023" using pow2_mono [of 1003 1023] by simp
  from rnd_rel [OF ab_lo ab_hi] obtain e' where e': "rnd (a + b) = Fin e'"
    "(a + b) * (1 - u) \<le> e'" "e' \<le> (a + b) * (1 + u)" unfolding u_def by blast
  have res: "fadd (fmul (Fin c) (Fin k)) (fmul (Fin e) (Fin kp)) = Fin e'"
    using cpos kpos epos kppos by (simp add: fmul_Fin fadd_Fin a(1) b(1) e'(1))
  \<comment> \<open>the upper bound\<close>
  have "a + b \<le> (c * k + e * kp) * (1 + u)" using a(3) b(3) by (simp add: algebra_simps)
  then have "(a + b) * (1 + u) \<le> (c * k + e * kp) * (1 + u) * (1 + u)"
    using u by (intro mult_right_mono) simp_all
  moreover have "c * k + e * kp \<le> M * k + M * (1 + t) * kp"
    using range(4) prev'(2) kpos kppos by (intro add_mono mult_right_mono) simp_all
  then have "(c * k + e * kp) * (1 + u) * (1 + u) \<le> (M * k + M * (1 + t) * kp) * (1 + u) * (1 + u)"
    using u by (intro mult_right_mono) simp_all
  moreover have "(M * k + M * (1 + t) * kp) * (1 + u) * (1 + u) =
      M * ((1 + u)\<^sup>2 * (k + kp * (1 + t)))"
    by (simp add: power2_eq_square algebra_simps)
  moreover have "M * ((1 + u)\<^sup>2 * (k + kp * (1 + t))) \<le> M * (1 + t)"
    using U' Mpos by (intro mult_left_mono) simp_all
  ultimately have upper: "e' \<le> M * (1 + t)" using e'(3) by linarith
  \<comment> \<open>the lower bound\<close>
  have "(c * k + e * kp) * (1 - u) \<le> a + b" using a(2) b(2) by (simp add: algebra_simps)
  then have "(c * k + e * kp) * (1 - u) * (1 - u) \<le> (a + b) * (1 - u)"
    using u by (intro mult_right_mono) simp_all
  moreover have "m * k + m * (1 - t) * kp \<le> c * k + e * kp"
    using range(3) prev'(1) kpos kppos by (intro add_mono mult_right_mono) simp_all
  then have "(m * k + m * (1 - t) * kp) * (1 - u) * (1 - u) \<le> (c * k + e * kp) * (1 - u) * (1 - u)"
    using u by (intro mult_right_mono) simp_all
  moreover have "(m * k + m * (1 - t) * kp) * (1 - u) * (1 - u) =
      m * ((1 - u)\<^sup>2 * (k + kp * (1 - t)))"
    by (simp add: power2_eq_square algebra_simps)
  moreover have "m * (1 - t) \<le> m * ((1 - u)\<^sup>2 * (k + kp * (1 - t)))"
    using L' mpos by (intro mult_left_mono) simp_all
  ultimately have lower: "m * (1 - t) \<le> e'" using e'(2) by linarith
  from res lower upper show ?thesis unfolding t_def by blast
qed

lemma emaLoop_bound:
  fixes k kp m M :: rat
  assumes k: "1 / 2 ^ 10 \<le> k" "k \<le> 1" and kp: "1 / 2 ^ 10 \<le> kp" "kp \<le> 1"
    and co: "fsub (Fin 1) (Fin k) = Fin kp"
    and U: "(1 + 1 / 2 ^ 53)\<^sup>2 * (k + kp * (1 + 1 / 2 ^ 48)) \<le> 1 + 1 / 2 ^ 48"
    and L: "1 - 1 / 2 ^ 48 \<le> (1 - 1 / 2 ^ 53)\<^sup>2 * (k + kp * (1 - 1 / 2 ^ 48))"
    and range: "pow2 (- 1000) \<le> m" "M \<le> pow2 1000"
  shows "i < length cs \<Longrightarrow>
    (\<forall>j\<le>i. \<exists>c. cs ! j = Fin c \<and> m \<le> c \<and> c \<le> M) \<Longrightarrow>
    m * (1 - 1 / 2 ^ 48) \<le> e \<Longrightarrow> e \<le> M * (1 + 1 / 2 ^ 48) \<Longrightarrow>
    \<exists>e'. emaLoop (Fin k) (Fin e) cs ! i = Fin e' \<and>
      m * (1 - 1 / 2 ^ 48) \<le> e' \<and> e' \<le> M * (1 + 1 / 2 ^ 48)"
proof (induction cs arbitrary: e i)
  case Nil
  then show ?case by simp
next
  case (Cons x cs)
  from Cons.prems(2) obtain c where c: "x = Fin c" "m \<le> c" "c \<le> M" by force
  from ema_step_bound [OF k kp U L range c(2,3) Cons.prems(3,4)]
  obtain e1 where e1: "fadd (fmul (Fin c) (Fin k)) (fmul (Fin e) (Fin kp)) = Fin e1"
    "m * (1 - 1 / 2 ^ 48) \<le> e1" "e1 \<le> M * (1 + 1 / 2 ^ 48)" by blast
  have unfold: "emaLoop (Fin k) (Fin e) (x # cs) = Fin e1 # emaLoop (Fin k) (Fin e1) cs"
    by (simp add: Let_def c(1) co e1(1))
  show ?case
  proof (cases i)
    case 0
    with e1 show ?thesis unfolding unfold by simp
  next
    case (Suc i')
    have "i' < length cs" using Cons.prems(1) Suc by simp
    moreover have "\<forall>j\<le>i'. \<exists>c. cs ! j = Fin c \<and> m \<le> c \<and> c \<le> M"
    proof (intro allI impI)
      fix j assume "j \<le> i'"
      then have "Suc j \<le> i" using Suc by simp
      with Cons.prems(2) have "\<exists>c. (x # cs) ! Suc j = Fin c \<and> m \<le> c \<and> c \<le> M" by blast
      then show "\<exists>c. cs ! j = Fin c \<and> m \<le> c \<and> c \<le> M" by simp
    qed
    ultimately have "\<exists>e'. emaLoop (Fin k) (Fin e1) cs ! i' = Fin e' \<and>
      m * (1 - 1 / 2 ^ 48) \<le> e' \<and> e' \<le> M * (1 + 1 / 2 ^ 48)"
      using e1(2,3) by (rule Cons.IH)
    then show ?thesis unfolding unfold Suc by simp
  qed
qed

lemma calculateEMA_bound:
  fixes k kp m M :: rat
  assumes k: "1 / 2 ^ 10 \<le> k" "k \<le> 1" and kp: "1 / 2 ^ 10 \<le> kp" "kp \<le> 1"
    and factor: "fdiv (Fin 2) (fadd n (Fin 1)) = Fin k"
    and co: "fsub (Fin 1) (Fin k) = Fin kp"
    and U: "(1 + 1 / 2 ^ 53)\<^sup>2 * (k + kp * (1 + 1 / 2 ^ 48)) \<le> 1 + 1 / 2 ^ 48"
    and L: "1 - 1 / 2 ^ 48 \<le> (1 - 1 / 2 ^ 53)\<^sup>2 * (k + kp * (1 - 1 / 2 ^ 48))"
    and range: "pow2 (- 1000) \<le> m" "M \<le> pow2 1000"
    and i: "i < length points"
    and closes: "\<forall>j\<le>i. \<exists>c. close (points ! j) = Fin c \<and> m \<le> c \<and> c \<le> M"
  shows "\<exists>e. calculateEMA points n ! i = Fin e \<and>
    m * (1 - 1 / 2 ^ 48) \<le> e \<and> e \<le> M * (1 + 1 / 2 ^ 48)"
proof -
  from i obtain p ps where ps: "points = p # ps" by (cases points) auto
  from closes obtain c where c: "close p = Fin c" "m \<le> c" "c \<le> M" unfolding ps by force
  have mpos: "0 < m" using range(1) pow2_pos [of "- 1000"] by linarith
  then have Mpos: "0 < M" using c by linarith
  have "m * (1 - 1 / 2 ^ 48) \<le> m * 1" using mpos by (intro mult_left_mono) simp_all
  then have lo: "m * (1 - 1 / 2 ^ 48) \<le> c" using c(2) by simp
  have "M * 1 \<le> M * (1 + 1 / 2 ^ 48)" using Mpos by (intro mult_left_mono) simp_all
  then have hi: "c \<le> M * (1 + 1 / 2 ^ 48)" using c(3) by simp
  have ema: "calculateEMA points n = Fin c # emaLoop (Fin k) (Fin c) (map close ps)"
    by (simp add: ps calculateEMA_Cons factor c(1))
  show ?thesis
  proof (cases i)
    case 0
    with lo hi show ?thesis by (simp add: ema)
  next
    case (Suc i')
    have "i' < length (map close ps)" using i Suc ps by simp
    moreover have "\<forall>j\<le>i'. \<exists>c. map close ps ! j = Fin c \<and> m \<le> c \<and> c \<le> M"
    proof (intro allI impI)
      fix j assume j: "j \<le> i'"
      then have "Suc j \<le> i" using Suc by simp
      with closes have "\<exists>c. close (points ! Suc j) = Fin c \<and> m \<le> c \<and> c \<le> M" by blast
      moreover have "j < length ps" using j i Suc ps by simp
      ultimately show "\<exists>c. map close ps ! j = Fin c \<and> m \<le> c \<and> c \<le> M"
        by (simp add: ps)
    qed
    ultimately have "\<exists>e'. emaLoop (Fin k) (Fin c) (map close ps) ! i' = Fin e' \<and>
      m * (1 - 1 / 2 ^ 48) \<le> e' \<and> e' \<le> M * (1 + 1 / 2 ^ 48)"
      using lo hi by (rule emaLoop_bound [OF k kp co U L range])
    then show ?thesis by (simp add: ema Suc)
  qed
qed

lemma ema_factors:
  "fdiv (Fin 2) (fadd (Fin 9) (Fin 1)) = Fin (3602879701896397 / 18014398509481984)"
  "fsub (Fin 1) (Fin (3602879701896397 / 18014398509481984)) =
     Fin (3602879701896397 / 4503599627370496)"
  "fdiv (Fin 2) (fadd (Fin 21) (Fin 1)) = Fin (3275345183542179 / 36028797018963968)"
  "fsub (Fin 1) (Fin (3275345183542179 / 36028797018963968)) =
     Fin (8188362958855447 / 9007199254740992)"
  by (simp_all add: feval)

lemma calculateEMA_bound_engine:
  assumes "n = Fin 9 \<or> n = Fin 21"
    and "pow2 (- 1000) \<le> m" "M \<le> pow2 1000"
    and "i < length points"
    and "\<forall>j\<le>i. \<exists>c. close (points ! j) = Fin c \<and> m \<le> c \<and> c \<le> M"
  shows "\<exists>e. calculateEMA points n ! i = Fin e \<and>
    m * (1 - 1 / 2 ^ 48) \<le> e \<and> e \<le> M * (1 + 1 / 2 ^ 48)"
  using assms(1)
proof
  assume n: "n = Fin 9"
  show ?thesis
    by (rule calculateEMA_bound [where k = "3602879701896397 / 18014398509481984"
          and kp = "3602879701896397 / 4503599627370496", OF _ _ _ _ _ _ _ _ assms(2-5)])
       (simp_all add: n ema_factors power2_eq_square)
next
  assume n: "n = Fin 21"
  show ?thesis
    by (rule calculateEMA_bound [where k = "3275345183542179 / 36028797018963968"
          and kp = "8188362958855447 / 9007199254740992", OF _ _ _ _ _ _ _ _ assms(2-5)])
       (simp_all add: n ema_factors power2_eq_square)
qed

section \<open>Concrete sessions\<close>

lemma bigMoveStep_pctAt:
  "bigMoveStep points moves i =
     (if fge (fabs (pctAt points i)) BIG_MOVE_THRESHOLD
      then moves @ [\<lparr> move_index = i, move_changePct = pctAt points i,
                      move_direction = (if fge (pctAt points i) (Fin 0) then Bullish else Bearish),
                      move_spanStart = i - BIG_MOVE_LOOKBACK \<rparr>]
      else moves)"
  by (simp add: bigMoveStep_def pctAt_def Let_def)

lemma bigMoveScan_six:
  "length points = 6 \<Longrightarrow>
   bigMoveScan points =
     bigMoveStep points (bigMoveStep points (bigMoveStep points [] 3) 4) 5"
  by (simp add: bigMoveScan_def BIG_MOVE_LOOKBACK_def upt_rec [of 3] upt_rec [of 4]
      upt_rec [of 5] upt_rec [of 6])

lemma scenario_eval:
  "scenarioSession =
     [flatBar (Fin 0) (Fin 100),
      flatBar (Fin 60) (Fin (7050948166601933 / 70368744177664)),
      flatBar (Fin 120) (Fin (3532510957718733 / 35184372088832)),
      flatBar (Fin 180) (Fin (7086132538690765 / 70368744177664)),
      flatBar (Fin 240) (Fin (201 / 2)),
      flatBar (Fin 300) (Fin (3585287515851981 / 35184372088832))]"
  by (simp add: scenarioSession_def feval)

lemma scenario_length: "length scenarioSession = 6"
  by (simp add: scenarioSession_def)

lemma scenario_pct:
  "pctAt scenarioSession 3 = Fin (49258120924365 / 70368744177664)"
  "pctAt scenarioSession 4 = Fin (2696766243934403 / 9007199254740992)"
  "pctAt scenarioSession 5 = Fin (6728485499059505 / 4503599627370496)"
  by (simp_all add: pctAt_def pctChange_def BIG_MOVE_LOOKBACK_def scenario_eval flatBar_def feval)

lemma scenario_top:
  "topMoves scenarioSession =
     [\<lparr> move_index = 5, move_changePct = Fin (6728485499059505 / 4503599627370496),
        move_direction = Bullish, move_spanStart = 2 \<rparr>,
      \<lparr> move_index = 3, move_changePct = Fin (49258120924365 / 70368744177664),
        move_direction = Bullish, move_spanStart = 0 \<rparr>]"
  by (simp add: topMoves_def bigMoveScan_six scenario_length bigMoveStep_pctAt scenario_pct
      threshold_eval BIG_MOVE_LOOKBACK_def js_sort_def compareMoves_def feval)

lemma scenario_insights:
  "map (\<lambda>x. (insight_id x, direction x, confidence x, startIndex x, endIndex x, changePct x))
     (fst (detectBigMoves format toFixed2 scenarioSession)) =
     [(''big-move-5'', Some Bullish, Medium, Some 2, Some 5,
         Some (Fin (6728485499059505 / 4503599627370496))),
      (''big-move-3'', Some Bullish, Low, Some 0, Some 3,
         Some (Fin (49258120924365 / 70368744177664)))]"
  by (simp add: detectBigMoves_def scenario_top enumerate_eq_zip bigMoveInsight_def Let_def
      toConfidence_def fge_def fle_def show_nat_digits)

text \<open>
  C1, as stated, fails: on the scenario's session the analysis output starts with two
  big-move insights, not one. The move from index 0 (100) to index 3 (100.7) is +0.70%,
  above the 0.6% threshold as well.
\<close>

theorem scenario_two_big_moves:
  "map insight_id (take 2 (insights (analyzeIntradayData sampleFormat sampleFixed scenarioSession))) =
     [''big-move-5'', ''big-move-3''] \<and>
   length (fst (detectBigMoves sampleFormat sampleFixed scenarioSession)) = 2"
proof -
  have two: "length (fst (detectBigMoves sampleFormat sampleFixed scenarioSession)) = 2"
    using arg_cong [OF scenario_insights [of sampleFormat sampleFixed], of length] by simp
  have ids: "map insight_id (fst (detectBigMoves sampleFormat sampleFixed scenarioSession)) =
      [''big-move-5'', ''big-move-3'']"
    using arg_cong [OF scenario_insights [of sampleFormat sampleFixed], of "map fst"]
    by (simp add: comp_def)
  have "take 2 (insights (analyzeIntradayData sampleFormat sampleFixed scenarioSession)) =
      fst (detectBigMoves sampleFormat sampleFixed scenarioSession)"
    by (simp add: analyze_insights two min_def)
  with ids two show ?thesis by simp
qed

text \<open>
  C1, amended. On the scenario's session \<open>detectBigMoves\<close> returns exactly two insights,
  the first two of the analysis output: first the move of +1.49% from index 2 to index
  5, bullish with confidence medium, then the move of +0.70% from index 0 to index 3,
  bullish with confidence low.
\<close>

theorem scenario_big_moves:
  "map (\<lambda>x. (insight_id x, direction x, confidence x, startIndex x, endIndex x))
     (fst (detectBigMoves format toFixed2 scenarioSession)) =
     [(''big-move-5'', Some Bullish, Medium, Some 2, Some 5),
      (''big-move-3'', Some Bullish, Low, Some 0, Some 3)] \<and>
   map changePct (fst (detectBigMoves format toFixed2 scenarioSession)) =
     [Some (Fin (6728485499059505 / 4503599627370496)), Some (Fin (49258120924365 / 70368744177664))] \<and>
   flt (Fin (149 / 100)) (Fin (6728485499059505 / 4503599627370496)) \<and>
   flt (Fin (6728485499059505 / 4503599627370496)) (Fin (150 / 100)) \<and>
   take 2 (insights (analyzeIntradayData format toFixed2 scenarioSession)) =
     fst (detectBigMoves format toFixed2 scenarioSession)"
proof -
  note s = scenario_insights [of format toFixed2]
  have a: "map (\<lambda>x. (insight_id x, direction x, confidence x, startIndex x, endIndex x))
     (fst (detectBigMoves format toFixed2 scenarioSession)) =
     [(''big-move-5'', Some Bullish, Medium, Some 2, Some 5),
      (''big-move-3'', Some Bullish, Low, Some 0, Some 3)]"
    using arg_cong [OF s, of "map (\<lambda>(a, b, c, d, e, f). (a, b, c, d, e))"] by (simp add: comp_def)
  have b: "map changePct (fst (detectBigMoves format toFixed2 scenarioSession)) =
     [Some (Fin (6728485499059505 / 4503599627370496)), Some (Fin (49258120924365 / 70368744177664))]"
    using arg_cong [OF s, of "map (\<lambda>(a, b, c, d, e, f). f)"] by (simp add: comp_def)
  have two: "length (fst (detectBigMoves format toFixed2 scenarioSession)) = 2"
    using arg_cong [OF s, of length] by simp
  have c: "take 2 (insights (analyzeIntradayData format toFixed2 scenarioSession)) =
      fst (detectBigMoves format toFixed2 scenarioSession)"
    by (simp add: analyze_insights two min_def)
  have d: "flt (Fin (149 / 100)) (Fin (6728485499059505 / 4503599627370496))"
    "flt (Fin (6728485499059505 / 4503599627370496)) (Fin (150 / 100))"
    by (simp_all add: flt_def)
  from a b c d show ?thesis by simp
qed

lemma tie_length: "length tieSession = 6"
  by (simp add: tieSession_def)

lemma tie_pct:
  "pctAt tieSession 3 = Fin 1"
  "pctAt tieSession 4 = Fin 1"
  "pctAt tieSession 5 = Fin 0"
  by (simp_all add: pctAt_def pctChange_def BIG_MOVE_LOOKBACK_def tieSession_def flatBar_def feval)

lemma tie_top:
  "topMoves tieSession =
     [\<lparr> move_index = 3, move_changePct = Fin 1, move_direction = Bullish, move_spanStart = 0 \<rparr>,
      \<lparr> move_index = 4, move_changePct = Fin 1, move_direction = Bullish, move_spanStart = 1 \<rparr>]"
  by (simp add: topMoves_def bigMoveScan_six tie_length bigMoveStep_pctAt tie_pct threshold_eval
      BIG_MOVE_LOOKBACK_def js_sort_def compareMoves_def feval)

lemma tie_insights:
  "map (\<lambda>x. (insightMagnitude x, insightEnd x))
     (fst (detectBigMoves sampleFormat sampleFixed tieSession)) = [(Fin 1, 3), (Fin 1, 4)]"
  by (simp add: detectBigMoves_def tie_top enumerate_eq_zip bigMoveInsight_def Let_def
      insightMagnitude_def insightEnd_def)

theorem detectBigMoves_ranked_witness:
  "map (\<lambda>x. (insightMagnitude x, insightEnd x))
     (fst (detectBigMoves sampleFormat sampleFixed tieSession)) = [(Fin 1, 3), (Fin 1, 4)] \<and>
   fge (Fin 1) (Fin 1) \<and> fge (Fin 1) BIG_MOVE_THRESHOLD \<and>
   sorted_wrt (\<lambda>x y. fge (insightMagnitude y) (insightMagnitude x) \<longrightarrow> insightEnd x < insightEnd y)
     (fst (detectBigMoves sampleFormat sampleFixed tieSession)) \<and>
   length (fst (detectBigMoves sampleFormat sampleFixed tieSession)) \<le> 4"
  using detectBigMoves_ranked [of sampleFormat sampleFixed tieSession] tie_insights
  by (auto simp add: threshold_eval fge_def fle_def)

subsection \<open>A session whose price never moves\<close>

lemma flat_ema9:
  "calculateEMA flatSession (Fin 9) = [Fin 3, Fin (6755399441055745 / 2251799813685248)]"
  by (simp add: flatSession_def calculateEMA_Cons flatBar_def Let_def feval)

lemma flat_ema21: "calculateEMA flatSession (Fin 21) = [Fin 3, Fin 3]"
  by (simp add: flatSession_def calculateEMA_Cons flatBar_def Let_def feval)

lemma flat_length: "length flatSession = 2"
  by (simp add: flatSession_def)

lemma flat_diffs:
  "emaDiff [Fin 3, Fin (6755399441055745 / 2251799813685248)] [Fin 3, Fin 3] 0 = Fin 0"
  "emaDiff [Fin 3, Fin (6755399441055745 / 2251799813685248)] [Fin 3, Fin 3] (Suc 0) =
     Fin (1 / 2251799813685248)"
  by (simp_all add: emaDiff_def js_get_def feval)

lemma show_nat_Suc_0: "show_nat (Suc 0) = ''1''"
  by (simp add: show_nat.simps)

lemma trendScan_two:
  "length points = 2 \<Longrightarrow>
   trendScan format points e9 e21 = trendStep format points e9 e21 [] (Suc 0)"
  by (simp add: trendScan_def upt_rec [of "Suc 0"] upt_rec [of 2])

lemma trendStep_emaDiff:
  "trendStep format points e9 e21 acc i =
     (if fle (emaDiff e9 e21 (i - 1)) (Fin 0) \<and> fgt (emaDiff e9 e21 i) (Fin 0) then
        acc @ [\<lparr> insight_id = ''bullish-cross-'' @ show_nat i,
                 title = ''Short-term bullish transition'',
                 description =
                   ''Fast EMA crossed above the intermediate trend near '' @
                   format (fmul (timestamp (points ! i)) (Fin 1000)) @
                   '', suggesting renewed upside momentum.'',
                 confidence = Medium,
                 startIndex = Some (i - 1),
                 endIndex = Some i,
                 changePct = None,
                 direction = Some Bullish \<rparr>]
      else if fge (emaDiff e9 e21 (i - 1)) (Fin 0) \<and> flt (emaDiff e9 e21 i) (Fin 0) then
        acc @ [\<lparr> insight_id = ''bearish-cross-'' @ show_nat i,
                 title = ''Short-term bearish transition'',
                 description =
                   ''Fast EMA slipped beneath the intermediate trend near '' @
                   format (fmul (timestamp (points ! i)) (Fin 1000)) @
                   '', flagging a potential fade.'',
                 confidence = Medium,
                 startIndex = Some (i - 1),
                 endIndex = Some i,
                 changePct = None,
                 direction = Some Bearish \<rparr>]
      else acc)"
  by (simp add: trendStep_def emaDiff_def Let_def)

lemma flat_trend:
  "map (\<lambda>x. (insight_id x, endIndex x, direction x))
     (trendScan format flatSession (calculateEMA flatSession (Fin 9))
        (calculateEMA flatSession (Fin 21))) =
     [(''bullish-cross-1'', Some 1, Some Bullish)]"
  by (simp add: trendScan_two flat_length flat_ema9 flat_ema21 trendStep_emaDiff flat_diffs
      show_nat_Suc_0 fle_def fgt_def flt_def)

lemma flat_shifts:
  "map insight_id
     (detectTrendShifts sampleFormat flatSession (calculateEMA flatSession (Fin 9))
        (calculateEMA flatSession (Fin 21))) = [''bullish-cross-1'']"
proof -
  have "length (trendScan sampleFormat flatSession (calculateEMA flatSession (Fin 9))
        (calculateEMA flatSession (Fin 21))) = 1"
    using arg_cong [OF flat_trend [of sampleFormat], of length] by simp
  moreover have "map insight_id (trendScan sampleFormat flatSession (calculateEMA flatSession (Fin 9))
        (calculateEMA flatSession (Fin 21))) = [''bullish-cross-1'']"
    using arg_cong [OF flat_trend [of sampleFormat], of "map fst"] by (simp add: comp_def)
  ultimately show ?thesis by (simp add: detectTrendShifts_def Let_def)
qed

text \<open>
  C8, as stated, fails: on a session of two bars at the price 3, the EMA of span 9 leaves
  the price at index 1 (it is \<open>3.0000000000000004\<close>, since each product and the sum of
  \<open>3 * 0.2 + 3 * 0.8\<close> are rounded), the EMA of span 21 stays at 3, and
  \<open>detectTrendShifts\<close> reports a bullish transition at index 1. On a single bar the
  narrative is the fixed message for fewer than two points, which states no bias.
\<close>

theorem flat_session_drifts:
  "map close flatSession = [Fin 3, Fin 3] \<and>
   calculateEMA flatSession (Fin 9) = [Fin 3, Fin (6755399441055745 / 2251799813685248)] \<and>
   calculateEMA flatSession (Fin 9) ! 1 \<noteq> Fin 3 \<and>
   map insight_id
     (detectTrendShifts sampleFormat flatSession (calculateEMA flatSession (Fin 9))
        (calculateEMA flatSession (Fin 21))) = [''bullish-cross-1''] \<and>
   buildNarrative sampleFixed [flatBar (Fin 0) (Fin 3)] =
     ''Insufficient data to build a narrative.''"
  using flat_shifts
  by (simp add: flat_ema9 buildNarrative_def) (simp add: flatSession_def flatBar_def)

text \<open>
  C10, as stated, fails: on the same session the EMA of span 9 at index 1 is greater than
  the maximum of the closes.
\<close>

theorem ema_exceeds_max_close:
  "Math_max (map close flatSession) = Fin 3 \<and>
   calculateEMA flatSession (Fin 9) ! 1 = Fin (6755399441055745 / 2251799813685248) \<and>
   flt (Math_max (map close flatSession)) (calculateEMA flatSession (Fin 9) ! 1) \<and>
   \<not> fle (calculateEMA flatSession (Fin 9) ! 1) (Math_max (map close flatSession))"
proof -
  have "Math_max (map close flatSession) = Fin 3"
    by (simp add: flatSession_def flatBar_def Math_max_def js_max2_def flt_def)
  then show ?thesis by (simp add: flat_ema9 flt_def fle_def)
qed

theorem detectTrendShifts_crossings_witness:
  "(1::nat) \<le> 1 \<and> 1 < length flatSession \<and>
   fle (emaDiff (calculateEMA flatSession (Fin 9)) (calculateEMA flatSession (Fin 21)) (1 - 1)) (Fin 0) \<and>
   fgt (emaDiff (calculateEMA flatSession (Fin 9)) (calculateEMA flatSession (Fin 21)) 1) (Fin 0) \<and>
   (\<exists>x\<in>set (trendScan sampleFormat flatSession (calculateEMA flatSession (Fin 9))
        (calculateEMA flatSession (Fin 21))).
      endIndex x = Some 1 \<and> direction x = Some Bullish \<and> confidence x = Medium \<and>
      startIndex x = Some 0)"
proof -
  have d: "fle (emaDiff (calculateEMA flatSession (Fin 9)) (calculateEMA flatSession (Fin 21)) (1 - 1)) (Fin 0)"
    "fgt (emaDiff (calculateEMA flatSession (Fin 9)) (calculateEMA flatSession (Fin 21)) 1) (Fin 0)"
    by (simp_all add: flat_ema9 flat_ema21 flat_diffs fle_def fgt_def flt_def)
  have l: "(1::nat) \<le> 1 \<and> 1 < length flatSession" by (simp add: flat_length)
  from detectTrendShifts_crossings [of flatSession sampleFormat "calculateEMA flatSession (Fin 9)"
      "calculateEMA flatSession (Fin 21)"] l d
  obtain x where x: "x \<in> set (trendScan sampleFormat flatSession (calculateEMA flatSession (Fin 9))
        (calculateEMA flatSession (Fin 21)))" "endIndex x = Some 1" "direction x = Some Bullish"
    by blast
  from detectTrendShifts_crossings [of flatSession sampleFormat "calculateEMA flatSession (Fin 9)"
      "calculateEMA flatSession (Fin 21)"] x(1)
  have "confidence x = Medium \<and>
      (\<exists>i. 1 \<le> i \<and> i < length flatSession \<and> startIndex x = Some (i - 1) \<and> endIndex x = Some i)"
    by blast
  with x(2) have "confidence x = Medium \<and> startIndex x = Some 0" by auto
  with x l d show ?thesis by blast
qed

lemma pctChange_same: "pctChange c c = NaN \<or> pctChange c c = Fin 0 \<or> pctChange c c = NegZero"
proof (cases c)
  case (Fin q)
  have "fsub (Fin q) (Fin q) = Fin 0" by (simp add: fsub_Fin rnd_def)
  then show ?thesis
    by (simp add: Fin pctChange_def fdiv_def fmul_def signed_zero_def)
qed (simp_all add: pctChange_def fsub_def fadd_def fdiv_def fmul_def rnd_def)

lemma threshold_literal: "rnd (3 / 5) = Fin (5404319552844595 / 9007199254740992)"
  by (simp add: feval)

lemma pctChange_same_below: "\<not> fge (fabs (pctChange c c)) BIG_MOVE_THRESHOLD"
  using pctChange_same [of c] by (auto simp add: threshold_eval fge_def fle_def)

lemma pctChange_same_balanced:
  "\<not> fgt (pctChange c c) (rnd (6 / 10)) \<and> \<not> flt (pctChange c c) (fneg (rnd (6 / 10)))"
  using pctChange_same [of c] by (auto simp add: threshold_literal fgt_def flt_def)

lemma constant_scan:
  assumes "\<forall>p\<in>set points. close p = c" "m \<le> length points"
  shows "foldl (bigMoveStep points) [] [BIG_MOVE_LOOKBACK..<m] = []"
  using assms(2)
proof (induction m)
  case 0
  then show ?case by simp
next
  case (Suc m)
  show ?case
  proof (cases "BIG_MOVE_LOOKBACK \<le> m")
    case False
    then show ?thesis by simp
  next
    case True
    from Suc.prems have m: "m < length points" "m - BIG_MOVE_LOOKBACK < length points" by simp_all
    then have "close (points ! m) = c" "close (points ! (m - BIG_MOVE_LOOKBACK)) = c"
      using assms(1) by simp_all
    then have "pctAt points m = pctChange c c" by (simp add: pctAt_def)
    then have "bigMoveStep points [] m = []"
      using pctChange_same_below [of c] by (simp add: bigMoveStep_pctAt)
    then show ?thesis using True Suc by simp
  qed
qed

text \<open>
  C8, amended. For every non-empty session whose closes all equal \<open>c\<close>: the EMA series of
  every span has the length of the input and starts at \<open>c\<close>, and for the spans 9 and 21
  and a finite \<open>c\<close> between \<open>2^-1000\<close> and \<open>2^1000\<close> every element lies between
  \<open>c * (1 - 2^-48)\<close> and \<open>c * (1 + 2^-48)\<close>; \<open>detectBigMoves\<close> returns no insight and no marker;
  and with at least two points the narrative bias is balanced, the narrative opening
  with the sentence of the balanced bias.
\<close>

theorem constant_session:
  assumes "points \<noteq> []" and "\<forall>p\<in>set points. close p = c"
  shows "length (calculateEMA points n) = length points \<and>
    calculateEMA points n ! 0 = c \<and>
    ((n = Fin 9 \<or> n = Fin 21) \<and> c = Fin q \<and> pow2 (- 1000) \<le> q \<and> q \<le> pow2 1000 \<longrightarrow>
       (\<forall>i<length points. \<exists>e. calculateEMA points n ! i = Fin e \<and>
          q * (1 - 1 / 2 ^ 48) \<le> e \<and> e \<le> q * (1 + 1 / 2 ^ 48))) \<and>
    detectBigMoves format toFixed2 points = ([], []) \<and>
    (2 \<le> length points \<longrightarrow>
       narrativeBias points = BiasBalanced \<and>
       (\<exists>rest. buildNarrative toFixed2 points =
          ''Auction remained rotational with neither side in clear control.'' @ rest))"
proof -
  from assms obtain p ps where ps: "points = p # ps" "close p = c"
    by (cases points) auto
  have first: "calculateEMA points n ! 0 = c"
    by (simp add: ps calculateEMA_Cons)
  have near: "\<exists>e. calculateEMA points n ! i = Fin e \<and>
      q * (1 - 1 / 2 ^ 48) \<le> e \<and> e \<le> q * (1 + 1 / 2 ^ 48)"
    if h: "n = Fin 9 \<or> n = Fin 21" "c = Fin q" "pow2 (- 1000) \<le> q" "q \<le> pow2 1000"
      and i: "i < length points" for i
  proof -
    have "\<forall>j\<le>i. \<exists>c'. close (points ! j) = Fin c' \<and> q \<le> c' \<and> c' \<le> q"
      using assms(2) h(2) i by simp
    with h i show ?thesis by (intro calculateEMA_bound_engine)
  qed
  have "bigMoveScan points = []"
    using constant_scan [OF assms(2), of "length points"] by (simp add: bigMoveScan_def)
  then have big: "detectBigMoves format toFixed2 points = ([], [])"
    by (simp add: detectBigMoves_def topMoves_def js_sort_def enumerate_eq_zip)
  have bias: "narrativeBias points = BiasBalanced" if "2 \<le> length points"
  proof -
    from that have "0 < length points" "length points - 1 < length points" by auto
    then have "close (points ! 0) = c" "close (points ! (length points - 1)) = c"
      using assms(2) by simp_all
    then show ?thesis
      using pctChange_same_balanced [of c] by (simp add: narrativeBias_def Let_def)
  qed
  have sentence: "\<exists>rest. buildNarrative toFixed2 points =
      ''Auction remained rotational with neither side in clear control.'' @ rest"
    if "2 \<le> length points"
    using that bias [OF that]
    by (simp add: buildNarrative_def Let_def biasText_def del: append_assoc)
  from first near big bias sentence show ?thesis
    by (simp only: calculateEMA_length) blast
qed

theorem constant_session_witness:
  "flatSession \<noteq> [] \<and> map close flatSession = [Fin 3, Fin 3] \<and> 2 \<le> length flatSession \<and>
   pow2 (- 1000) \<le> 3 \<and> 3 \<le> pow2 1000 \<and>
   calculateEMA flatSession (Fin 9) ! 0 = Fin 3 \<and>
   calculateEMA flatSession (Fin 9) ! 1 = Fin (6755399441055745 / 2251799813685248) \<and>
   3 * (1 - 1 / 2 ^ 48) \<le> (6755399441055745 / 2251799813685248 :: rat) \<and>
   (6755399441055745 / 2251799813685248 :: rat) \<le> 3 * (1 + 1 / 2 ^ 48) \<and>
   detectBigMoves sampleFormat sampleFixed flatSession = ([], []) \<and>
   narrativeBias flatSession = BiasBalanced"
proof -
  have h: "flatSession \<noteq> []" "\<forall>p\<in>set flatSession. close p = Fin 3" "2 \<le> length flatSession"
    "map close flatSession = [Fin 3, Fin 3]"
    by (simp_all add: flatSession_def flatBar_def)
  have r: "pow2 (- 1000) \<le> 3" "3 \<le> pow2 1000"
    using pow2_mono [of "- 1000" 0] pow2_mono [of 2 1000] by (simp_all add: pow2_def)
  from constant_session [OF h(1,2), of "Fin 9" 3 sampleFormat sampleFixed] r h(3)
  have "calculateEMA flatSession (Fin 9) ! 0 = Fin 3"
    "\<exists>e. calculateEMA flatSession (Fin 9) ! 1 = Fin e \<and>
       3 * (1 - 1 / 2 ^ 48) \<le> e \<and> e \<le> 3 * (1 + 1 / 2 ^ 48)"
    "detectBigMoves sampleFormat sampleFixed flatSession = ([], [])"
    "narrativeBias flatSession = BiasBalanced"
    by (simp_all add: flat_length)
  then show ?thesis using h r by (simp add: flat_ema9)
qed

lemma Math_single:
  "c \<noteq> NaN \<Longrightarrow> Math_min [c] = c \<and> Math_max [c] = c"
  by (cases c) (simp_all add: Math_min_def Math_max_def js_min2_def js_max2_def flt_def)

lemma ema_seed_within_range:
  assumes "points \<noteq> []" and "close (points ! 0) \<noteq> NaN"
  shows "calculateEMA points n ! 0 = close (points ! 0) \<and>
    fle (Math_min (map close (take 1 points))) (calculateEMA points n ! 0) \<and>
    fle (calculateEMA points n ! 0) (Math_max (map close (take 1 points)))"
proof -
  from assms obtain p ps where ps: "points = p # ps" "close p \<noteq> NaN"
    by (cases points) auto
  have "fle (close p) (close p)" using ps(2) by (simp add: fle_def)
  then show ?thesis using Math_single [OF ps(2)] by (simp add: ps(1) calculateEMA_Cons)
qed

text \<open>
  C10, amended. For every non-empty session whose first close is a number (not NaN) and
  every span, the first EMA element is the first close, and so lies between the minimum
  and the maximum of the closes seen so far. For the spans 9 and 21 and every index \<open>i\<close>:
  when the closes up to \<open>i\<close> are finite and lie between \<open>m\<close> and \<open>M\<close>, with \<open>2^-1000 \<le> m\<close> and
  \<open>M \<le> 2^1000\<close> (so for their minimum and maximum), the EMA element at \<open>i\<close> lies between
  \<open>m * (1 - 2^-48)\<close> and \<open>M * (1 + 2^-48)\<close>.
\<close>

theorem ema_within_range_up_to_rounding:
  "(points \<noteq> [] \<and> close (points ! 0) \<noteq> NaN \<longrightarrow>
      calculateEMA points n ! 0 = close (points ! 0) \<and>
      fle (Math_min (map close (take 1 points))) (calculateEMA points n ! 0) \<and>
      fle (calculateEMA points n ! 0) (Math_max (map close (take 1 points)))) \<and>
   ((n = Fin 9 \<or> n = Fin 21) \<and> pow2 (- 1000) \<le> m \<and> M \<le> pow2 1000 \<and> i < length points \<and>
    (\<forall>j\<le>i. \<exists>c. close (points ! j) = Fin c \<and> m \<le> c \<and> c \<le> M) \<longrightarrow>
      (\<exists>e. calculateEMA points n ! i = Fin e \<and>
         m * (1 - 1 / 2 ^ 48) \<le> e \<and> e \<le> M * (1 + 1 / 2 ^ 48)))"
  using ema_seed_within_range [of points n] calculateEMA_bound_engine [of n m M i points]
  by blast

theorem ema_within_range_up_to_rounding_witness:
  "flatSession \<noteq> [] \<and> close (flatSession ! 0) \<noteq> NaN \<and>
   calculateEMA flatSession (Fin 9) ! 0 = Fin 3 \<and>
   pow2 (- 1000) \<le> 3 \<and> 3 \<le> pow2 1000 \<and> 1 < length flatSession \<and>
   close (flatSession ! 0) = Fin 3 \<and> close (flatSession ! 1) = Fin 3 \<and>
   calculateEMA flatSession (Fin 9) ! 1 = Fin (6755399441055745 / 2251799813685248) \<and>
   3 * (1 - 1 / 2 ^ 48) \<le> (6755399441055745 / 2251799813685248 :: rat) \<and>
   (6755399441055745 / 2251799813685248 :: rat) \<le> 3 * (1 + 1 / 2 ^ 48)"
proof -
  have h: "flatSession \<noteq> []" "close (flatSession ! 0) \<noteq> NaN" "close (flatSession ! 0) = Fin 3"
    "close (flatSession ! 1) = Fin 3" "1 < length flatSession"
    by (simp_all add: flatSession_def flatBar_def)
  have r: "pow2 (- 1000) \<le> 3" "3 \<le> pow2 1000"
    using pow2_mono [of "- 1000" 0] pow2_mono [of 2 1000] by (simp_all add: pow2_def)
  have c: "\<forall>j\<le>1. \<exists>c. close (flatSession ! j) = Fin c \<and> 3 \<le> c \<and> c \<le> 3"
    by (simp add: flatSession_def flatBar_def nth_Cons' le_Suc_eq)
  from ema_within_range_up_to_rounding [of flatSession "Fin 9" 3 3 1] h r c
  have "calculateEMA flatSession (Fin 9) ! 0 = Fin 3"
    "\<exists>e. calculateEMA flatSession (Fin 9) ! 1 = Fin e \<and>
       3 * (1 - 1 / 2 ^ 48) \<le> e \<and> e \<le> 3 * (1 + 1 / 2 ^ 48)"
    by simp_all
  then show ?thesis using h r by (simp add: flat_ema9)
qed

subsection \<open>Twenty quiet bars\<close>

lemma quiet_length: "length quietSession = 20"
  by (simp add: quietSession_def)

lemma quiet_close: "i < 20 \<Longrightarrow> close (quietSession ! i) = Fin 100"
  by (simp add: quietSession_def flatBar_def)

lemma quiet_window:
  assumes "10 \<le> i" "i < 20"
  shows "windowRange quietSession i = Fin 0"
proof -
  have w: "take 10 (drop (i - 10) quietSession) =
      map (\<lambda>j. flatBar (Fin (of_nat (60 * j))) (Fin 100)) [i - 10..<i]"
    using assms by (simp add: quietSession_def drop_map take_map)
  have len: "length [i - 10..<i] = 10" using assms by simp
  have mx: "foldl js_max2 a (map (\<lambda>j. Fin 100) xs) = (if xs = [] then a else Fin 100)"
    if "a = NInf \<or> a = Fin 100" for a and xs :: "nat list"
    using that by (induction xs arbitrary: a) (auto simp add: js_max2_def flt_def)
  have mn: "foldl js_min2 a (map (\<lambda>j. Fin 100) xs) = (if xs = [] then a else Fin 100)"
    if "a = PInf \<or> a = Fin 100" for a and xs :: "nat list"
    using that by (induction xs arbitrary: a) (auto simp add: js_min2_def flt_def)
  have ne: "[i - 10..<i] \<noteq> []" using assms by simp
  have "Math_max (map high (take 10 (drop (i - 10) quietSession))) = Fin 100"
    "Math_min (map low (take 10 (drop (i - 10) quietSession))) = Fin 100"
    unfolding w using mx [of NInf "[i - 10..<i]"] mn [of PInf "[i - 10..<i]"] ne
    by (simp_all add: Math_max_def Math_min_def flatBar_def comp_def)
  then show ?thesis
    using quiet_close [OF assms(2)]
    by (simp add: windowRange_def Let_def fsub_Fin rnd_def fdiv_def signed_zero_def)
qed

lemma quiet_scan: "compressionScan quietSession = (Fin 0, 10)"
proof -
  have "foldl (compressionStep quietSession) (Fin 0, 10) [k..<m] = (Fin 0, 10)"
    if "10 \<le> k" "m \<le> 20" for k m
    using that
  proof (induction m)
    case 0
    then show ?case by simp
  next
    case (Suc m)
    show ?case
    proof (cases "k \<le> m")
      case True
      with Suc have "windowRange quietSession m = Fin 0" by (simp add: quiet_window)
      with True Suc show ?thesis by (simp add: compressionStep_cases flt_def)
    next
      case False
      then show ?thesis by simp
    qed
  qed
  from this [of 11 20] show ?thesis
    by (simp add: compressionScan_def quiet_length upt_rec [of 10 20] compressionStep_cases
        quiet_window flt_def)
qed


subsection \<open>Twenty bars whose ranges overflow\<close>










subsection \<open>The markers of the scenario\<close>

theorem signals_anchored_witness:
  "length (signals (analyzeIntradayData sampleFormat sampleFixed scenarioSession)) = 2 \<and>
   (\<exists>i<length scenarioSession.
      endIndex (insights (analyzeIntradayData sampleFormat sampleFixed scenarioSession) ! 0) = Some i \<and>
      signal_timestamp (signals (analyzeIntradayData sampleFormat sampleFixed scenarioSession) ! 0) =
        timestamp (scenarioSession ! i) \<and>
      price (signals (analyzeIntradayData sampleFormat sampleFixed scenarioSession) ! 0) =
        close (scenarioSession ! i))"
proof -
  have "length (signals (analyzeIntradayData sampleFormat sampleFixed scenarioSession)) = 2"
    by (simp add: analyze_signals detectBigMoves_lengths scenario_top)
  with signals_anchored [of sampleFormat sampleFixed scenarioSession] show ?thesis
    by simp
qed

end
